theory Spec2Isabelle
  imports Complex_Main "HOL-Library.Sublist"
begin

section \<open>The rate limiter of DETERMINATION.py\<close>

text \<open>
  The class \<open>RateLimiter\<close> keeps two deques of timestamps. A timestamp is what
  \<open>time.time()\<close> returns; it is modelled as a real number (the rounding of
  floating-point subtraction is not modelled) and every clock reading is an explicit
  argument of the operation that makes it. A deque is a list whose head is the
  left end. Reading or popping the left end of an empty deque raises \<open>IndexError\<close> in
  Python, which is a value of the model.

  The messages of the program are byte strings: a literal of the source that is not
  ASCII is given by the bytes of its UTF-8 encoding. \<open>ValueError\<close> is what \<open>int\<close>
  raises in the dice command.
\<close>

type_synonym timestamp = real

datatype error = IndexError | ValueError

record RateLimiter =
  rpm_limit :: int
  daily_limit :: int
  requests_minute :: "timestamp list"
  requests_day :: "timestamp list"

definition init :: "int \<Rightarrow> int \<Rightarrow> RateLimiter" where
  "init rpm daily =
     \<lparr>rpm_limit = rpm, daily_limit = daily, requests_minute = [], requests_day = []\<rparr>"

definition deque_front :: "'a list \<Rightarrow> error + 'a" where
  "deque_front q = (case q of [] \<Rightarrow> Inl IndexError | x # _ \<Rightarrow> Inr x)"

definition popleft :: "'a list \<Rightarrow> error + ('a \<times> 'a list)" where
  "popleft q = (case q of [] \<Rightarrow> Inl IndexError | x # q' \<Rightarrow> Inr (x, q'))"

definition deque_append :: "'a list \<Rightarrow> 'a \<Rightarrow> 'a list" where
  "deque_append q x = q @ [x]"

text \<open>
  The two cleaning loops of \<open>check\<close> differ in the deque and in the age only:
  \<^verbatim>\<open>while q and current_time - q[0] > age: q.popleft()\<close>.
  The test \<open>q\<close> is evaluated first and \<open>q[0]\<close> only when it holds.
\<close>

function clean :: "timestamp \<Rightarrow> real \<Rightarrow> timestamp list \<Rightarrow> error + timestamp list" where
  "clean current_time age q =
     (if q \<noteq> [] then
        (case deque_front q of
           Inl e \<Rightarrow> Inl e
         | Inr oldest \<Rightarrow>
             if current_time - oldest > age then
               (case popleft q of
                  Inl e \<Rightarrow> Inl e
                | Inr (x, q') \<Rightarrow> clean current_time age q')
             else Inr q)
      else Inr q)"
  by pat_completeness auto
termination
  by (relation "measure (\<lambda>(current_time, age, q). length q)")
     (auto simp: popleft_def split: list.splits)

declare clean.simps [simp del]

definition rpm_message :: string where
  "rpm_message =
     ''Bot '' @ [CHR 0xC4, CHR 0x91] @ ''ang b'' @ [CHR 0xE1, CHR 0xBA, CHR 0xAD] @
     ''n suy ngh'' @ [CHR 0xC4, CHR 0xA9] @ ''! Vui l'' @ [CHR 0xC3, CHR 0xB2] @
     ''ng th'' @ [CHR 0xE1, CHR 0xBB, CHR 0xAD] @ '' l'' @ [CHR 0xE1, CHR 0xBA, CHR 0xA1] @
     ''i sau m'' @ [CHR 0xE1, CHR 0xBB, CHR 0x99] @ ''t ph'' @ [CHR 0xC3, CHR 0xBA] @ ''t.''"

definition daily_message :: string where
  "daily_message =
     ''H'' @ [CHR 0xC3, CHR 0xB4] @ ''m nay bot '' @ [CHR 0xC4, CHR 0x91, CHR 0xC3, CHR 0xA3] @
     '' d'' @ [CHR 0xC3, CHR 0xB9] @ ''ng h'' @ [CHR 0xE1, CHR 0xBA, CHR 0xBF] @ ''t n'' @
     [CHR 0xC4, CHR 0x83] @ ''ng l'' @ [CHR 0xC6, CHR 0xB0, CHR 0xE1, CHR 0xBB, CHR 0xA3] @
     ''ng r'' @ [CHR 0xE1, CHR 0xBB, CHR 0x93] @ ''i. H'' @ [CHR 0xE1, CHR 0xBA, CHR 0xB9] @
     ''n g'' @ [CHR 0xE1, CHR 0xBA, CHR 0xB7] @ ''p l'' @ [CHR 0xE1, CHR 0xBA, CHR 0xA1] @
     ''i b'' @ [CHR 0xE1, CHR 0xBA, CHR 0xA1] @ ''n v'' @ [CHR 0xC3, CHR 0xA0] @ ''o ng'' @
     [CHR 0xC3, CHR 0xA0] @ ''y mai nh'' @ [CHR 0xC3, CHR 0xA9] @ ''!''"

text \<open>
  \<open>check\<close> reads the clock once, cleans the minute deque, then the day deque, and
  compares the two lengths with the limits, the minute limit first. It returns the pair
  \<open>(is_limited, message)\<close> together with the limiter as the cleaning left it.
\<close>

definition check ::
  "timestamp \<Rightarrow> RateLimiter \<Rightarrow> error + ((bool \<times> string) \<times> RateLimiter)" where
  "check current_time self =
     (case clean current_time 60 (requests_minute self) of
        Inl e \<Rightarrow> Inl e
      | Inr m \<Rightarrow>
          (case clean current_time 86400 (requests_day self) of
             Inl e \<Rightarrow> Inl e
           | Inr d \<Rightarrow>
               let self' = self\<lparr>requests_minute := m, requests_day := d\<rparr> in
               if int (length (requests_minute self')) \<ge> rpm_limit self' then
                 Inr ((True, rpm_message), self')
               else if int (length (requests_day self')) \<ge> daily_limit self' then
                 Inr ((True, daily_message), self')
               else Inr ((False, ''''), self')))"

text \<open>\<open>record_request\<close> reads the clock once and appends the reading to both deques.\<close>

definition record_request :: "timestamp \<Rightarrow> RateLimiter \<Rightarrow> RateLimiter" where
  "record_request current_time self =
     self\<lparr>requests_minute := deque_append (requests_minute self) current_time,
          requests_day := deque_append (requests_day self) current_time\<rparr>"

text \<open>
  Every command handler that calls the text generator (\<open>tarot\<close>, \<open>yesno\<close>,
  \<open>diceroll\<close> and the modal's \<open>callback\<close>) passes the same gate first:
  \<^verbatim>\<open>is_limited, msg = limiter.check()\<close>, a reply of \<open>msg\<close> and return when limited,
  \<open>limiter.record_request()\<close> otherwise. The two clock readings are \<open>t_check\<close> and
  \<open>t_record\<close>.
\<close>

definition gate ::
  "timestamp \<Rightarrow> timestamp \<Rightarrow> RateLimiter \<Rightarrow> error + ((bool \<times> string) \<times> RateLimiter)" where
  "gate t_check t_record limiter =
     (case check t_check limiter of
        Inl e \<Rightarrow> Inl e
      | Inr ((is_limited, msg), limiter') \<Rightarrow>
          if is_limited then Inr ((is_limited, msg), limiter')
          else Inr ((is_limited, msg), record_request t_record limiter'))"

text \<open>
  A run of gated requests, each with its two clock readings, and the list of what the
  gate answered.
\<close>

fun requests ::
  "(timestamp \<times> timestamp) list \<Rightarrow> RateLimiter \<Rightarrow>
     error + ((bool \<times> string) list \<times> RateLimiter)" where
  "requests [] limiter = Inr ([], limiter)"
| "requests ((t_check, t_record) # rest) limiter =
     (case gate t_check t_record limiter of
        Inl e \<Rightarrow> Inl e
      | Inr (answer, limiter') \<Rightarrow>
          (case requests rest limiter' of
             Inl e \<Rightarrow> Inl e
           | Inr (answers, limiter'') \<Rightarrow> Inr (answer # answers, limiter'')))"

text \<open>The clock readings of a run of gated requests, in the order they are made.\<close>

fun clock :: "(timestamp \<times> timestamp) list \<Rightarrow> timestamp list" where
  "clock [] = []"
| "clock ((t_check, t_record) # rest) = t_check # t_record # clock rest"

text \<open>Repeated calls of \<open>check\<close> with nothing in between, and their answers.\<close>

fun checks ::
  "timestamp list \<Rightarrow> RateLimiter \<Rightarrow> error + ((bool \<times> string) list \<times> RateLimiter)" where
  "checks [] limiter = Inr ([], limiter)"
| "checks (t # ts) limiter =
     (case check t limiter of
        Inl e \<Rightarrow> Inl e
      | Inr (answer, limiter') \<Rightarrow>
          (case checks ts limiter' of
             Inl e \<Rightarrow> Inl e
           | Inr (answers, limiter'') \<Rightarrow> Inr (answer # answers, limiter'')))"

text \<open>
  The limiter has two operations after its construction. A call is one of them with the
  clock reading it makes; \<open>run\<close> performs a sequence of calls in any order.
\<close>

datatype call = Check timestamp | Record_request timestamp

fun call_time :: "call \<Rightarrow> timestamp" where
  "call_time (Check t) = t"
| "call_time (Record_request t) = t"

fun step :: "call \<Rightarrow> RateLimiter \<Rightarrow> error + RateLimiter" where
  "step (Check t) limiter =
     (case check t limiter of Inl e \<Rightarrow> Inl e | Inr (answer, limiter') \<Rightarrow> Inr limiter')"
| "step (Record_request t) limiter = Inr (record_request t limiter)"

fun run :: "call list \<Rightarrow> RateLimiter \<Rightarrow> error + RateLimiter" where
  "run [] limiter = Inr limiter"
| "run (c # cs) limiter =
     (case step c limiter of Inl e \<Rightarrow> Inl e | Inr limiter' \<Rightarrow> run cs limiter')"

section \<open>The text-generation helper\<close>

text \<open>
  \<open>ask_gemini\<close> calls \<open>gemini_model.generate_content(prompt)\<close> inside a \<open>try\<close>. The
  call is external: the model takes what it did. It raised, or it returned a response
  with its list of candidates and its \<open>text\<close> property (\<open>response_text\<close>), whose
  reading can raise too.
  An exception is given by its text \<open>str(e)\<close>; \<open>except Exception\<close> does not catch
  one that derives from \<open>BaseException\<close> only.
\<close>

datatype exn = Exception string | BaseException string

record 'c response =
  candidates :: "'c list"
  response_text :: "exn + string"

definition blocked_message :: string where
  "blocked_message =
     ''R'' @ [CHR 0xE1, CHR 0xBA, CHR 0xA5] @ ''t ti'' @ [CHR 0xE1, CHR 0xBA, CHR 0xBF] @
     ''c, t'' @ [CHR 0xC3, CHR 0xB4] @ ''i kh'' @ [CHR 0xC3, CHR 0xB4] @ ''ng th'' @
     [CHR 0xE1, CHR 0xBB, CHR 0x83] @ '' t'' @ [CHR 0xE1, CHR 0xBA, CHR 0xA1] @ ''o ph'' @
     [CHR 0xE1, CHR 0xBA, CHR 0xA3] @ ''n h'' @ [CHR 0xE1, CHR 0xBB, CHR 0x93] @ ''i. C'' @
     [CHR 0xC3, CHR 0xB3] @ '' th'' @ [CHR 0xE1, CHR 0xBB, CHR 0x83] @ '' n'' @
     [CHR 0xE1, CHR 0xBB, CHR 0x99] @ ''i dung '' @ [CHR 0xC4, CHR 0x91, CHR 0xC3, CHR 0xA3] @
     '' b'' @ [CHR 0xE1, CHR 0xBB, CHR 0x8B] @ '' ch'' @ [CHR 0xE1, CHR 0xBA, CHR 0xB7] @
     ''n v'' @ [CHR 0xC3, CHR 0xAC] @ '' l'' @ [CHR 0xC3, CHR 0xBD] @ '' do an to'' @
     [CHR 0xC3, CHR 0xA0] @ ''n.''"

text \<open>The constant part of the f-string of the \<open>except\<close> branch, up to \<open>{e}\<close>.\<close>

definition error_apology :: string where
  "error_apology =
     ''Xin l'' @ [CHR 0xE1, CHR 0xBB, CHR 0x97] @ ''i, c'' @ [CHR 0xC3, CHR 0xB3] @ '' m'' @
     [CHR 0xE1, CHR 0xBB, CHR 0x99] @ ''t l'' @ [CHR 0xE1, CHR 0xBB, CHR 0x97] @ ''i nh'' @
     [CHR 0xE1, CHR 0xBB, CHR 0x8F] @ '' '' @ [CHR 0xC4, CHR 0x91, CHR 0xC3, CHR 0xA3] @
     '' x'' @ [CHR 0xE1, CHR 0xBA, CHR 0xA3] @ ''y ra khi t'' @ [CHR 0xC3, CHR 0xB4] @ ''i '' @
     [CHR 0xC4, CHR 0x91] @ ''ang k'' @ [CHR 0xE1, CHR 0xBA, CHR 0xBF] @ ''t n'' @
     [CHR 0xE1, CHR 0xBB, CHR 0x91] @ ''i v'' @ [CHR 0xE1, CHR 0xBB, CHR 0x9B] @ ''i v'' @
     [CHR 0xC5, CHR 0xA9] @ '' tr'' @ [CHR 0xE1, CHR 0xBB, CHR 0xA5] @ '': ''"

fun handle :: "exn \<Rightarrow> exn + string" where
  "handle (Exception e) = Inr (error_apology @ e)"
| "handle (BaseException e) = Inl (BaseException e)"

definition ask_gemini :: "exn + 'c response \<Rightarrow> exn + string" where
  "ask_gemini generated =
     (case generated of
        Inl e \<Rightarrow> handle e
      | Inr response \<Rightarrow>
          if candidates response = [] then Inr blocked_message
          else (case response_text response of Inl e \<Rightarrow> handle e | Inr t \<Rightarrow> Inr t))"

section \<open>The dice command\<close>

text \<open>
  The argument \<open>dice\<close> of \<open>diceroll\<close> is a Python \<open>str\<close>: a list of Unicode code
  points, each a natural number. \<open>diceroll\<close> matches \<open>dice.lower()\<close> against the pattern
  \<open>(\d+)d(\d+)\<close> with \<open>re.fullmatch\<close>, converts the two groups with \<open>int\<close> and checks
  their ranges before it reaches the gate. What \<open>\d\<close>, \<open>int\<close> and \<open>str.lower\<close> do is
  Python's, with the character tables of Unicode 14.0.0 that CPython 3.11 carries; the
  tables below are those.

  \<open>\d\<close> in a \<open>str\<close> pattern matches the decimal digits of every script (general
  category Nd). They come in runs of ten, from the digit zero to the digit nine of a
  script; \<open>decimal_zeros\<close> lists the zeros, and \<open>decimal\<close> is the value of a digit.
\<close>

definition decimal_zeros :: "nat list" where
  "decimal_zeros =
     [48, 1632, 1776, 1984, 2406, 2534, 2662, 2790, 2918, 3046, 3174, 3302, 3430, 3558,
      3664, 3792, 3872, 4160, 4240, 6112, 6160, 6470, 6608, 6784, 6800, 6992, 7088, 7232,
      7248, 42528, 43216, 43264, 43472, 43504, 43600, 44016, 65296, 66720, 68912, 69734,
      69872, 69942, 70096, 70384, 70736, 70864, 71248, 71360, 71472, 71904, 72016, 72784,
      73040, 73120, 92768, 92864, 93008, 120782, 120792, 120802, 120812, 120822, 123200,
      123632, 125264, 130032]"

definition decimal :: "nat \<Rightarrow> nat option" where
  "decimal c =
     (case find (\<lambda>zero. zero \<le> c \<and> c < zero + 10) decimal_zeros of
        None \<Rightarrow> None
      | Some zero \<Rightarrow> Some (c - zero))"

definition is_digit :: "nat \<Rightarrow> bool" where
  "is_digit c = (decimal c \<noteq> None)"

text \<open>
  \<open>str.lower\<close> replaces every character by its full lowercase mapping, which is one
  character except for U+0130, and the capital sigma U+03A3 by one of the two small
  sigmas, by its context. An entry \<open>(lo, hi, stride, target)\<close> of \<open>lower_ranges\<close>
  maps the characters \<open>lo\<close>, \<open>lo + stride\<close>, ... up to \<open>hi\<close> to \<open>target\<close>,
  \<open>target + stride\<close>, ...; a character of no entry is its own lowercase.
\<close>

definition lower_ranges :: "(nat \<times> nat \<times> nat \<times> nat) list" where
  "lower_ranges =
     [(65, 90, 1, 97), (192, 214, 1, 224), (216, 222, 1, 248), (256, 302, 2, 257),
      (306, 310, 2, 307), (313, 327, 2, 314), (330, 374, 2, 331), (376, 376, 1, 255),
      (377, 381, 2, 378), (385, 385, 1, 595), (386, 388, 2, 387), (390, 390, 1, 596),
      (391, 391, 1, 392), (393, 394, 1, 598), (395, 395, 1, 396), (398, 398, 1, 477),
      (399, 399, 1, 601), (400, 400, 1, 603), (401, 401, 1, 402), (403, 403, 1, 608),
      (404, 404, 1, 611), (406, 406, 1, 617), (407, 407, 1, 616), (408, 408, 1, 409),
      (412, 412, 1, 623), (413, 413, 1, 626), (415, 415, 1, 629), (416, 420, 2, 417),
      (422, 422, 1, 640), (423, 423, 1, 424), (425, 425, 1, 643), (428, 428, 1, 429),
      (430, 430, 1, 648), (431, 431, 1, 432), (433, 434, 1, 650), (435, 437, 2, 436),
      (439, 439, 1, 658), (440, 440, 1, 441), (444, 444, 1, 445), (452, 452, 1, 454),
      (453, 453, 1, 454), (455, 455, 1, 457), (456, 456, 1, 457), (458, 458, 1, 460),
      (459, 475, 2, 460), (478, 494, 2, 479), (497, 497, 1, 499), (498, 500, 2, 499),
      (502, 502, 1, 405), (503, 503, 1, 447), (504, 542, 2, 505), (544, 544, 1, 414),
      (546, 562, 2, 547), (570, 570, 1, 11365), (571, 571, 1, 572), (573, 573, 1, 410),
      (574, 574, 1, 11366), (577, 577, 1, 578), (579, 579, 1, 384), (580, 580, 1, 649),
      (581, 581, 1, 652), (582, 590, 2, 583), (880, 882, 2, 881), (886, 886, 1, 887),
      (895, 895, 1, 1011), (902, 902, 1, 940), (904, 906, 1, 941), (908, 908, 1, 972),
      (910, 911, 1, 973), (913, 929, 1, 945), (931, 939, 1, 963), (975, 975, 1, 983),
      (984, 1006, 2, 985), (1012, 1012, 1, 952), (1015, 1015, 1, 1016),
      (1017, 1017, 1, 1010), (1018, 1018, 1, 1019), (1021, 1023, 1, 891),
      (1024, 1039, 1, 1104), (1040, 1071, 1, 1072), (1120, 1152, 2, 1121),
      (1162, 1214, 2, 1163), (1216, 1216, 1, 1231), (1217, 1229, 2, 1218),
      (1232, 1326, 2, 1233), (1329, 1366, 1, 1377), (4256, 4293, 1, 11520),
      (4295, 4295, 1, 11559), (4301, 4301, 1, 11565), (5024, 5103, 1, 43888),
      (5104, 5109, 1, 5112), (7312, 7354, 1, 4304), (7357, 7359, 1, 4349),
      (7680, 7828, 2, 7681), (7838, 7838, 1, 223), (7840, 7934, 2, 7841),
      (7944, 7951, 1, 7936), (7960, 7965, 1, 7952), (7976, 7983, 1, 7968),
      (7992, 7999, 1, 7984), (8008, 8013, 1, 8000), (8025, 8031, 2, 8017),
      (8040, 8047, 1, 8032), (8072, 8079, 1, 8064), (8088, 8095, 1, 8080),
      (8104, 8111, 1, 8096), (8120, 8121, 1, 8112), (8122, 8123, 1, 8048),
      (8124, 8124, 1, 8115), (8136, 8139, 1, 8050), (8140, 8140, 1, 8131),
      (8152, 8153, 1, 8144), (8154, 8155, 1, 8054), (8168, 8169, 1, 8160),
      (8170, 8171, 1, 8058), (8172, 8172, 1, 8165), (8184, 8185, 1, 8056),
      (8186, 8187, 1, 8060), (8188, 8188, 1, 8179), (8486, 8486, 1, 969),
      (8490, 8490, 1, 107), (8491, 8491, 1, 229), (8498, 8498, 1, 8526),
      (8544, 8559, 1, 8560), (8579, 8579, 1, 8580), (9398, 9423, 1, 9424),
      (11264, 11311, 1, 11312), (11360, 11360, 1, 11361), (11362, 11362, 1, 619),
      (11363, 11363, 1, 7549), (11364, 11364, 1, 637), (11367, 11371, 2, 11368),
      (11373, 11373, 1, 593), (11374, 11374, 1, 625), (11375, 11375, 1, 592),
      (11376, 11376, 1, 594), (11378, 11378, 1, 11379), (11381, 11381, 1, 11382),
      (11390, 11391, 1, 575), (11392, 11490, 2, 11393), (11499, 11501, 2, 11500),
      (11506, 11506, 1, 11507), (42560, 42604, 2, 42561), (42624, 42650, 2, 42625),
      (42786, 42798, 2, 42787), (42802, 42862, 2, 42803), (42873, 42875, 2, 42874),
      (42877, 42877, 1, 7545), (42878, 42886, 2, 42879), (42891, 42891, 1, 42892),
      (42893, 42893, 1, 613), (42896, 42898, 2, 42897), (42902, 42920, 2, 42903),
      (42922, 42922, 1, 614), (42923, 42923, 1, 604), (42924, 42924, 1, 609),
      (42925, 42925, 1, 620), (42926, 42926, 1, 618), (42928, 42928, 1, 670),
      (42929, 42929, 1, 647), (42930, 42930, 1, 669), (42931, 42931, 1, 43859),
      (42932, 42946, 2, 42933), (42948, 42948, 1, 42900), (42949, 42949, 1, 642),
      (42950, 42950, 1, 7566), (42951, 42953, 2, 42952), (42960, 42960, 1, 42961),
      (42966, 42968, 2, 42967), (42997, 42997, 1, 42998), (65313, 65338, 1, 65345),
      (66560, 66599, 1, 66600), (66736, 66771, 1, 66776), (66928, 66938, 1, 66967),
      (66940, 66954, 1, 66979), (66956, 66962, 1, 66995), (66964, 66965, 1, 67003),
      (68736, 68786, 1, 68800), (71840, 71871, 1, 71872), (93760, 93791, 1, 93792),
      (125184, 125217, 1, 125218)]"

definition to_lower_full :: "nat \<Rightarrow> nat list" where
  "to_lower_full c =
     (if c = 304 then [105, 775]
      else
        (case find (\<lambda>(lo, hi, stride, target).
                      lo \<le> c \<and> c \<le> hi \<and> (c - lo) mod stride = 0) lower_ranges of
           None \<Rightarrow> [c]
         | Some (lo, hi, stride, target) \<Rightarrow> [target + (c - lo)]))"

text \<open>
  The capital sigma becomes the final small sigma U+03C2 when the nearest character
  before it that is not case-ignorable is cased and the nearest such character after it
  is not (or there is none), and the small sigma U+03C3 otherwise. \<open>is_cased\<close> is asked
  about characters that are not case-ignorable only, and \<open>cased_ranges\<close> lists the cased
  ones among these.
\<close>

definition case_ignorable_ranges :: "(nat \<times> nat) list" where
  "case_ignorable_ranges =
     [(39, 39), (46, 46), (58, 58), (94, 94), (96, 96), (168, 168), (173, 173),
      (175, 175), (180, 180), (183, 184), (688, 879), (884, 885), (890, 890), (900, 901),
      (903, 903), (1155, 1161), (1369, 1369), (1375, 1375), (1425, 1469), (1471, 1471),
      (1473, 1474), (1476, 1477), (1479, 1479), (1524, 1524), (1536, 1541), (1552, 1562),
      (1564, 1564), (1600, 1600), (1611, 1631), (1648, 1648), (1750, 1757), (1759, 1768),
      (1770, 1773), (1807, 1807), (1809, 1809), (1840, 1866), (1958, 1968), (2027, 2037),
      (2042, 2042), (2045, 2045), (2070, 2093), (2137, 2139), (2184, 2184), (2192, 2193),
      (2200, 2207), (2249, 2306), (2362, 2362), (2364, 2364), (2369, 2376), (2381, 2381),
      (2385, 2391), (2402, 2403), (2417, 2417), (2433, 2433), (2492, 2492), (2497, 2500),
      (2509, 2509), (2530, 2531), (2558, 2558), (2561, 2562), (2620, 2620), (2625, 2626),
      (2631, 2632), (2635, 2637), (2641, 2641), (2672, 2673), (2677, 2677), (2689, 2690),
      (2748, 2748), (2753, 2757), (2759, 2760), (2765, 2765), (2786, 2787), (2810, 2815),
      (2817, 2817), (2876, 2876), (2879, 2879), (2881, 2884), (2893, 2893), (2901, 2902),
      (2914, 2915), (2946, 2946), (3008, 3008), (3021, 3021), (3072, 3072), (3076, 3076),
      (3132, 3132), (3134, 3136), (3142, 3144), (3146, 3149), (3157, 3158), (3170, 3171),
      (3201, 3201), (3260, 3260), (3263, 3263), (3270, 3270), (3276, 3277), (3298, 3299),
      (3328, 3329), (3387, 3388), (3393, 3396), (3405, 3405), (3426, 3427), (3457, 3457),
      (3530, 3530), (3538, 3540), (3542, 3542), (3633, 3633), (3636, 3642), (3654, 3662),
      (3761, 3761), (3764, 3772), (3782, 3782), (3784, 3789), (3864, 3865), (3893, 3893),
      (3895, 3895), (3897, 3897), (3953, 3966), (3968, 3972), (3974, 3975), (3981, 3991),
      (3993, 4028), (4038, 4038), (4141, 4144), (4146, 4151), (4153, 4154), (4157, 4158),
      (4184, 4185), (4190, 4192), (4209, 4212), (4226, 4226), (4229, 4230), (4237, 4237),
      (4253, 4253), (4348, 4348), (4957, 4959), (5906, 5908), (5938, 5939), (5970, 5971),
      (6002, 6003), (6068, 6069), (6071, 6077), (6086, 6086), (6089, 6099), (6103, 6103),
      (6109, 6109), (6155, 6159), (6211, 6211), (6277, 6278), (6313, 6313), (6432, 6434),
      (6439, 6440), (6450, 6450), (6457, 6459), (6679, 6680), (6683, 6683), (6742, 6742),
      (6744, 6750), (6752, 6752), (6754, 6754), (6757, 6764), (6771, 6780), (6783, 6783),
      (6823, 6823), (6832, 6862), (6912, 6915), (6964, 6964), (6966, 6970), (6972, 6972),
      (6978, 6978), (7019, 7027), (7040, 7041), (7074, 7077), (7080, 7081), (7083, 7085),
      (7142, 7142), (7144, 7145), (7149, 7149), (7151, 7153), (7212, 7219), (7222, 7223),
      (7288, 7293), (7376, 7378), (7380, 7392), (7394, 7400), (7405, 7405), (7412, 7412),
      (7416, 7417), (7468, 7530), (7544, 7544), (7579, 7679), (8125, 8125), (8127, 8129),
      (8141, 8143), (8157, 8159), (8173, 8175), (8189, 8190), (8203, 8207), (8216, 8217),
      (8228, 8228), (8231, 8231), (8234, 8238), (8288, 8292), (8294, 8303), (8305, 8305),
      (8319, 8319), (8336, 8348), (8400, 8432), (11388, 11389), (11503, 11505),
      (11631, 11631), (11647, 11647), (11744, 11775), (11823, 11823), (12293, 12293),
      (12330, 12333), (12337, 12341), (12347, 12347), (12441, 12446), (12540, 12542),
      (40981, 40981), (42232, 42237), (42508, 42508), (42607, 42610), (42612, 42621),
      (42623, 42623), (42652, 42655), (42736, 42737), (42752, 42785), (42864, 42864),
      (42888, 42890), (42994, 42996), (43000, 43001), (43010, 43010), (43014, 43014),
      (43019, 43019), (43045, 43046), (43052, 43052), (43204, 43205), (43232, 43249),
      (43263, 43263), (43302, 43309), (43335, 43345), (43392, 43394), (43443, 43443),
      (43446, 43449), (43452, 43453), (43471, 43471), (43493, 43494), (43561, 43566),
      (43569, 43570), (43573, 43574), (43587, 43587), (43596, 43596), (43632, 43632),
      (43644, 43644), (43696, 43696), (43698, 43700), (43703, 43704), (43710, 43711),
      (43713, 43713), (43741, 43741), (43756, 43757), (43763, 43764), (43766, 43766),
      (43867, 43871), (43881, 43883), (44005, 44005), (44008, 44008), (44013, 44013),
      (64286, 64286), (64434, 64450), (65024, 65039), (65043, 65043), (65056, 65071),
      (65106, 65106), (65109, 65109), (65279, 65279), (65287, 65287), (65294, 65294),
      (65306, 65306), (65342, 65342), (65344, 65344), (65392, 65392), (65438, 65439),
      (65507, 65507), (65529, 65531), (66045, 66045), (66272, 66272), (66422, 66426),
      (67456, 67461), (67463, 67504), (67506, 67514), (68097, 68099), (68101, 68102),
      (68108, 68111), (68152, 68154), (68159, 68159), (68325, 68326), (68900, 68903),
      (69291, 69292), (69446, 69456), (69506, 69509), (69633, 69633), (69688, 69702),
      (69744, 69744), (69747, 69748), (69759, 69761), (69811, 69814), (69817, 69818),
      (69821, 69821), (69826, 69826), (69837, 69837), (69888, 69890), (69927, 69931),
      (69933, 69940), (70003, 70003), (70016, 70017), (70070, 70078), (70089, 70092),
      (70095, 70095), (70191, 70193), (70196, 70196), (70198, 70199), (70206, 70206),
      (70367, 70367), (70371, 70378), (70400, 70401), (70459, 70460), (70464, 70464),
      (70502, 70508), (70512, 70516), (70712, 70719), (70722, 70724), (70726, 70726),
      (70750, 70750), (70835, 70840), (70842, 70842), (70847, 70848), (70850, 70851),
      (71090, 71093), (71100, 71101), (71103, 71104), (71132, 71133), (71219, 71226),
      (71229, 71229), (71231, 71232), (71339, 71339), (71341, 71341), (71344, 71349),
      (71351, 71351), (71453, 71455), (71458, 71461), (71463, 71467), (71727, 71735),
      (71737, 71738), (71995, 71996), (71998, 71998), (72003, 72003), (72148, 72151),
      (72154, 72155), (72160, 72160), (72193, 72202), (72243, 72248), (72251, 72254),
      (72263, 72263), (72273, 72278), (72281, 72283), (72330, 72342), (72344, 72345),
      (72752, 72758), (72760, 72765), (72767, 72767), (72850, 72871), (72874, 72880),
      (72882, 72883), (72885, 72886), (73009, 73014), (73018, 73018), (73020, 73021),
      (73023, 73029), (73031, 73031), (73104, 73105), (73109, 73109), (73111, 73111),
      (73459, 73460), (78896, 78904), (92912, 92916), (92976, 92982), (92992, 92995),
      (94031, 94031), (94095, 94111), (94176, 94177), (94179, 94180), (110576, 110579),
      (110581, 110587), (110589, 110590), (113821, 113822), (113824, 113827),
      (118528, 118573), (118576, 118598), (119143, 119145), (119155, 119170),
      (119173, 119179), (119210, 119213), (119362, 119364), (121344, 121398),
      (121403, 121452), (121461, 121461), (121476, 121476), (121499, 121503),
      (121505, 121519), (122880, 122886), (122888, 122904), (122907, 122913),
      (122915, 122916), (122918, 122922), (123184, 123197), (123566, 123566),
      (123628, 123631), (125136, 125142), (125252, 125259), (127995, 127999),
      (917505, 917505), (917536, 917631), (917760, 917999)]"

definition cased_ranges :: "(nat \<times> nat) list" where
  "cased_ranges =
     [(65, 90), (97, 122), (170, 170), (181, 181), (186, 186), (192, 214), (216, 246),
      (248, 442), (444, 447), (452, 659), (661, 687), (880, 883), (886, 887), (891, 893),
      (895, 895), (902, 902), (904, 906), (908, 908), (910, 929), (931, 1013),
      (1015, 1153), (1162, 1327), (1329, 1366), (1376, 1416), (4256, 4293), (4295, 4295),
      (4301, 4301), (4304, 4346), (4349, 4351), (5024, 5109), (5112, 5117), (7296, 7304),
      (7312, 7354), (7357, 7359), (7424, 7467), (7531, 7543), (7545, 7578), (7680, 7957),
      (7960, 7965), (7968, 8005), (8008, 8013), (8016, 8023), (8025, 8025), (8027, 8027),
      (8029, 8029), (8031, 8061), (8064, 8116), (8118, 8124), (8126, 8126), (8130, 8132),
      (8134, 8140), (8144, 8147), (8150, 8155), (8160, 8172), (8178, 8180), (8182, 8188),
      (8450, 8450), (8455, 8455), (8458, 8467), (8469, 8469), (8473, 8477), (8484, 8484),
      (8486, 8486), (8488, 8488), (8490, 8493), (8495, 8500), (8505, 8505), (8508, 8511),
      (8517, 8521), (8526, 8526), (8544, 8575), (8579, 8580), (9398, 9449),
      (11264, 11387), (11390, 11492), (11499, 11502), (11506, 11507), (11520, 11557),
      (11559, 11559), (11565, 11565), (42560, 42605), (42624, 42651), (42786, 42863),
      (42865, 42887), (42891, 42894), (42896, 42954), (42960, 42961), (42963, 42963),
      (42965, 42969), (42997, 42998), (43002, 43002), (43824, 43866), (43872, 43880),
      (43888, 43967), (64256, 64262), (64275, 64279), (65313, 65338), (65345, 65370),
      (66560, 66639), (66736, 66771), (66776, 66811), (66928, 66938), (66940, 66954),
      (66956, 66962), (66964, 66965), (66967, 66977), (66979, 66993), (66995, 67001),
      (67003, 67004), (68736, 68786), (68800, 68850), (71840, 71903), (93760, 93823),
      (119808, 119892), (119894, 119964), (119966, 119967), (119970, 119970),
      (119973, 119974), (119977, 119980), (119982, 119993), (119995, 119995),
      (119997, 120003), (120005, 120069), (120071, 120074), (120077, 120084),
      (120086, 120092), (120094, 120121), (120123, 120126), (120128, 120132),
      (120134, 120134), (120138, 120144), (120146, 120485), (120488, 120512),
      (120514, 120538), (120540, 120570), (120572, 120596), (120598, 120628),
      (120630, 120654), (120656, 120686), (120688, 120712), (120714, 120744),
      (120746, 120770), (120772, 120779), (122624, 122633), (122635, 122654),
      (125184, 125251), (127280, 127305), (127312, 127337), (127344, 127369)]"

definition is_case_ignorable :: "nat \<Rightarrow> bool" where
  "is_case_ignorable c =
     list_ex (\<lambda>(lo, hi). lo \<le> c \<and> c \<le> hi) case_ignorable_ranges"

definition is_cased :: "nat \<Rightarrow> bool" where
  "is_cased c = list_ex (\<lambda>(lo, hi). lo \<le> c \<and> c \<le> hi) cased_ranges"

definition handle_capital_sigma :: "nat list \<Rightarrow> nat list \<Rightarrow> nat" where
  "handle_capital_sigma before after =
     (let final_sigma =
            (case dropWhile is_case_ignorable (rev before) of
               [] \<Rightarrow> False
             | c # _ \<Rightarrow> is_cased c) \<and>
            (case dropWhile is_case_ignorable after of
               [] \<Rightarrow> True
             | c # _ \<Rightarrow> \<not> is_cased c)
      in if final_sigma then 962 else 963)"

text \<open>\<open>lower_from before s\<close> is the lowercase of \<open>s\<close> where \<open>s\<close> follows \<open>before\<close>.\<close>

fun lower_from :: "nat list \<Rightarrow> nat list \<Rightarrow> nat list" where
  "lower_from before [] = []"
| "lower_from before (c # after) =
     (if c = 931 then [handle_capital_sigma before after] else to_lower_full c) @
     lower_from (before @ [c]) after"

definition lower :: "nat list \<Rightarrow> nat list" where
  "lower s = lower_from [] s"

text \<open>
  \<open>int\<close> on a group of the pattern, which is a nonempty run of decimal digits:
  \<open>int_of_group\<close>. It raises \<open>ValueError\<close> when the run is longer than the limit of the
  interpreter on the conversion from a string, 4300 digits by default since Python 3.11,
  which the program leaves as it is; zeros at the front count as digits. Otherwise it
  returns the decimal value, which \<open>int_digits\<close> computes from the value \<open>acc\<close> of the
  digits read so far. No other string reaches \<open>int\<close> in the program; at a character
  that is not a decimal digit the model answers \<open>ValueError\<close>, as \<open>int\<close> does except
  for blanks around the number, a sign and underscores between digits.
\<close>

definition int_max_str_digits :: nat where
  "int_max_str_digits = 4300"

fun int_digits :: "int \<Rightarrow> nat list \<Rightarrow> error + int" where
  "int_digits acc [] = Inr acc"
| "int_digits acc (c # s) =
     (case decimal c of
        None \<Rightarrow> Inl ValueError
      | Some d \<Rightarrow> int_digits (10 * acc + int d) s)"

definition int_of_group :: "nat list \<Rightarrow> error + int" where
  "int_of_group s =
     (if s = [] \<or> length s > int_max_str_digits then Inl ValueError else int_digits 0 s)"

text \<open>
  The pattern has one way to match: a digit never matches \<open>d\<close> (U+0064, the code point
  100), so the first group is the longest run of digits at the start. The result is the
  pair of groups.
\<close>

definition fullmatch_dice :: "nat list \<Rightarrow> (nat list \<times> nat list) option" where
  "fullmatch_dice s =
     (let group1 = takeWhile is_digit s; rest = dropWhile is_digit s in
      case rest of
        [] \<Rightarrow> None
      | c # group2 \<Rightarrow>
          if group1 \<noteq> [] \<and> c = 100 \<and> group2 \<noteq> [] \<and> list_all is_digit group2
          then Some (group1, group2) else None)"

definition format_message :: string where
  "format_message =
     [CHR 0xC4, CHR 0x90, CHR 0xE1, CHR 0xBB, CHR 0x8B] @ ''nh d'' @
     [CHR 0xE1, CHR 0xBA, CHR 0xA1] @ ''ng kh'' @ [CHR 0xC3, CHR 0xB4] @ ''ng '' @
     [CHR 0xC4, CHR 0x91, CHR 0xC3, CHR 0xBA] @ ''ng! H'' @ [CHR 0xC3, CHR 0xA3] @ ''y d'' @
     [CHR 0xC3, CHR 0xB9] @ ''ng `NdN` (v'' @ [CHR 0xC3, CHR 0xAD] @ '' d'' @
     [CHR 0xE1, CHR 0xBB, CHR 0xA5] @ '': `2d6`, `1d20`).''"

definition range_message :: string where
  "range_message =
     ''S'' @ [CHR 0xE1, CHR 0xBB, CHR 0x91] @ '' l'' @
     [CHR 0xC6, CHR 0xB0, CHR 0xE1, CHR 0xBB, CHR 0xA3] @ ''ng x'' @ [CHR 0xC3, CHR 0xBA] @
     ''c x'' @ [CHR 0xE1, CHR 0xBA, CHR 0xAF] @ ''c (1-100) ho'' @
     [CHR 0xE1, CHR 0xBA, CHR 0xB7] @ ''c s'' @ [CHR 0xE1, CHR 0xBB, CHR 0x91] @ '' m'' @
     [CHR 0xE1, CHR 0xBA, CHR 0xB7] @ ''t (2-1000) kh'' @ [CHR 0xC3, CHR 0xB4] @ ''ng h'' @
     [CHR 0xE1, CHR 0xBB, CHR 0xA3] @ ''p l'' @ [CHR 0xE1, CHR 0xBB, CHR 0x87] @ ''.''"

text \<open>
  The command up to \<open>ctx.defer()\<close>: it replies and returns (\<open>Respond\<close>), or goes on
  to roll \<open>num_dice\<close> dice of \<open>num_sides\<close> sides (\<open>Roll\<close>), or \<open>int\<close> raises
  and nothing catches it.
\<close>

datatype outcome = Respond string | Roll int int

definition diceroll ::
  "nat list \<Rightarrow> timestamp \<Rightarrow> timestamp \<Rightarrow> RateLimiter \<Rightarrow> error + (outcome \<times> RateLimiter)" where
  "diceroll dice t_check t_record limiter =
     (case fullmatch_dice (lower dice) of
        None \<Rightarrow> Inr (Respond format_message, limiter)
      | Some (group1, group2) \<Rightarrow>
          (case int_of_group group1 of
             Inl e \<Rightarrow> Inl e
           | Inr num_dice \<Rightarrow>
               (case int_of_group group2 of
                  Inl e \<Rightarrow> Inl e
                | Inr num_sides \<Rightarrow>
                    if \<not> (1 \<le> num_dice \<and> num_dice \<le> 100 \<and>
                          2 \<le> num_sides \<and> num_sides \<le> 1000) then
                      Inr (Respond range_message, limiter)
                    else
                      (case gate t_check t_record limiter of
                         Inl e \<Rightarrow> Inl e
                       | Inr ((is_limited, msg), limiter') \<Rightarrow>
                           if is_limited then Inr (Respond msg, limiter')
                           else Inr (Roll num_dice num_sides, limiter')))))"

text \<open>
  What \<open>diceroll\<close> does once the notation is valid, for a dice count and a number of
  sides: the gate, then the reply of the limiter's message or the roll.
\<close>

abbreviation gated_roll ::
  "int \<Rightarrow> int \<Rightarrow> timestamp \<Rightarrow> timestamp \<Rightarrow> RateLimiter \<Rightarrow> error + (outcome \<times> RateLimiter)" where
  "gated_roll num_dice num_sides t_check t_record limiter \<equiv>
     (case gate t_check t_record limiter of
        Inl e \<Rightarrow> Inl e
      | Inr ((is_limited, msg), limiter') \<Rightarrow>
          if is_limited then Inr (Respond msg, limiter')
          else Inr (Roll num_dice num_sides, limiter'))"

section \<open>The cleaning loop and \<open>check\<close>\<close>

lemma clean_dropWhile:
  "clean current_time age q = Inr (dropWhile (\<lambda>t. current_time - t > age) q)"
proof (induction q)
  case Nil
  show ?case by (subst clean.simps) simp
next
  case (Cons x q)
  then show ?case by (subst clean.simps) (simp add: deque_front_def popleft_def)
qed

lemma check_unfold:
  "check now self =
     (let m = dropWhile (\<lambda>t. now - t > 60) (requests_minute self);
          d = dropWhile (\<lambda>t. now - t > 86400) (requests_day self);
          self' = self\<lparr>requests_minute := m, requests_day := d\<rparr>
      in Inr (if int (length m) \<ge> rpm_limit self then (True, rpm_message)
              else if int (length d) \<ge> daily_limit self then (True, daily_message)
              else (False, ''''),
              self'))"
  by (simp add: check_def clean_dropWhile Let_def)

lemma dropWhile_stronger:
  "(\<And>x. P x \<Longrightarrow> Q x) \<Longrightarrow> dropWhile Q (dropWhile P xs) = dropWhile Q xs"
  by (induction xs) auto

lemma dropWhile_keeps_suffix:
  "\<forall>y\<in>set ys. \<not> P y \<Longrightarrow> dropWhile P (xs @ ys) = dropWhile P xs @ ys"
  by (induction xs) (auto simp: dropWhile_eq_self_iff intro: hd_in_set)

lemma check_total: "\<exists>answer limiter'. check now self = Inr (answer, limiter')"
  by (simp add: check_unfold Let_def)

lemma check_limits:
  "check now self = Inr (answer, limiter') \<Longrightarrow>
     rpm_limit limiter' = rpm_limit self \<and> daily_limit limiter' = daily_limit self"
  by (auto simp: check_unfold Let_def)

lemma check_after_check:
  assumes "t1 \<le> t2" and "check t1 self = Inr (answer, limiter')"
  shows "check t2 limiter' = check t2 self"
proof -
  have m: "dropWhile (\<lambda>t. t2 - t > 60) (dropWhile (\<lambda>t. t1 - t > 60) (requests_minute self))
        = dropWhile (\<lambda>t. t2 - t > 60) (requests_minute self)"
    using assms(1) by (intro dropWhile_stronger) simp
  have d: "dropWhile (\<lambda>t. t2 - t > 86400) (dropWhile (\<lambda>t. t1 - t > 86400) (requests_day self))
        = dropWhile (\<lambda>t. t2 - t > 86400) (requests_day self)"
    using assms(1) by (intro dropWhile_stronger) simp
  from assms(2) have l: "limiter' = self\<lparr>requests_minute := dropWhile (\<lambda>t. t1 - t > 60) (requests_minute self),
        requests_day := dropWhile (\<lambda>t. t1 - t > 86400) (requests_day self)\<rparr>"
    by (auto simp: check_unfold Let_def)
  show ?thesis
    by (simp add: check_unfold [of t2] l m d Let_def)
qed

lemma checks_total: "\<exists>answers limiter'. checks ts self = Inr (answers, limiter')"
proof (induction ts arbitrary: self)
  case Nil
  show ?case by simp
next
  case (Cons t ts)
  obtain a l where c: "check t self = Inr (a, l)"
    using check_total by blast
  from Cons [of l] obtain as l' where "checks ts l = Inr (as, l')" by blast
  with c show ?case by simp
qed

lemma checks_then_check:
  assumes "\<forall>u\<in>set ts. u \<le> t" and "checks ts self = Inr (answers, limiter')"
  shows "check t limiter' = check t self"
  using assms
proof (induction ts arbitrary: self answers)
  case Nil
  then show ?case by simp
next
  case (Cons u ts)
  obtain a l where c: "check u self = Inr (a, l)"
    using check_total by blast
  obtain as l' where cs: "checks ts l = Inr (as, l')"
    using checks_total by blast
  from Cons.prems(2) c cs have "l' = limiter'" by simp
  with Cons.IH [of l as] Cons.prems(1) cs have "check t limiter' = check t l" by simp
  also have "\<dots> = check t self"
    using check_after_check [OF _ c] Cons.prems(1) by simp
  finally show ?case .
qed

section \<open>What \<open>check\<close> does\<close>

text \<open>
  C1. For every limiter and every clock reading, \<open>check\<close> first removes from the front
  of the minute deque every timestamp older than 60 seconds and from the front of the day
  deque every timestamp older than 86400 seconds (the loops stop at the first timestamp
  that is not older). Then it answers \<open>(True, rpm_message)\<close> if the minute deque holds
  at least \<open>rpm_limit\<close> timestamps, else \<open>(True, daily_message)\<close> if the day deque
  holds at least \<open>daily_limit\<close>, else \<open>False\<close> with the empty message.
\<close>

theorem check_cleans_then_decides:
  "check now self =
     (let m = dropWhile (\<lambda>t. now - t > 60) (requests_minute self);
          d = dropWhile (\<lambda>t. now - t > 86400) (requests_day self)
      in Inr (if int (length m) \<ge> rpm_limit self then (True, rpm_message)
              else if int (length d) \<ge> daily_limit self then (True, daily_message)
              else (False, ''''),
              self\<lparr>requests_minute := m, requests_day := d\<rparr>))"
  by (simp add: check_unfold Let_def)

text \<open>
  C8. \<open>check\<close> never fails: for every limiter, the empty one included, and every clock
  reading it returns an answer and a limiter, never \<open>IndexError\<close>. Each cleaning loop
  returns a deque for every deque, and returns the empty deque as it is, without reading
  its front.
\<close>

theorem check_never_fails:
  "(\<exists>is_limited msg limiter'. check now self = Inr ((is_limited, msg), limiter')) \<and>
   (\<exists>q'. clean now age q = Inr q') \<and>
   clean now age [] = Inr [] \<and>
   check now (init rpm daily) =
     Inr (if 0 \<ge> rpm then (True, rpm_message)
          else if 0 \<ge> daily then (True, daily_message) else (False, ''''),
          init rpm daily)"
  by (simp add: check_unfold clean_dropWhile init_def Let_def)

text \<open>
  C6. Calls of \<open>check\<close> with no \<open>record_request\<close> in between do not change what later
  calls answer. The earlier calls read the clock at the times \<open>earlier\<close>, the
  subsequent ones at the times \<open>later\<close>, in this order, so the readings do not
  decrease. For every limiter, the subsequent calls give the same answers after the
  earlier calls as they give without them: what the earlier calls removed, the first
  subsequent call removes as well.
\<close>

theorem checks_answers_unchanged:
  assumes "sorted (earlier @ later)"
  shows "\<exists>answers0 limiter0 answers limiter1 limiter2.
           checks earlier self = Inr (answers0, limiter0) \<and>
           checks later limiter0 = Inr (answers, limiter1) \<and>
           checks later self = Inr (answers, limiter2)"
proof -
  obtain answers0 limiter0 where e: "checks earlier self = Inr (answers0, limiter0)"
    using checks_total by blast
  show ?thesis
  proof (cases later)
    case Nil
    with e show ?thesis by simp
  next
    case (Cons t ts)
    from assms Cons have "\<forall>u\<in>set earlier. u \<le> t"
      by (auto simp: sorted_append)
    from checks_then_check [OF this e] have eq: "check t limiter0 = check t self" .
    obtain a l where c: "check t self = Inr (a, l)"
      using check_total by blast
    obtain as l' where cs: "checks ts l = Inr (as, l')"
      using checks_total by blast
    from e c cs eq Cons show ?thesis by simp
  qed
qed

theorem checks_answers_unchanged_witness:
  "sorted ([100] @ [130, 131 :: real]) \<and>
   (\<exists>answers0 limiter0 answers limiter1 limiter2.
      checks [100]
        \<lparr>rpm_limit = 1, daily_limit = 5, requests_minute = [50], requests_day = [50]\<rparr>
        = Inr (answers0, limiter0) \<and>
      checks [130, 131] limiter0 = Inr (answers, limiter1) \<and>
      checks [130, 131]
        \<lparr>rpm_limit = 1, daily_limit = 5, requests_minute = [50], requests_day = [50]\<rparr>
        = Inr (answers, limiter2))"
proof -
  have h: "sorted ([100] @ [130, 131 :: real])" by simp
  from checks_answers_unchanged [OF h] show ?thesis using h by blast
qed

section \<open>Runs of calls and of gated requests\<close>

lemma record_request_appends:
  "requests_minute (record_request t self) = requests_minute self @ [t] \<and>
   requests_day (record_request t self) = requests_day self @ [t] \<and>
   rpm_limit (record_request t self) = rpm_limit self \<and>
   daily_limit (record_request t self) = daily_limit self"
  by (simp add: record_request_def deque_append_def)

lemma step_total: "\<exists>limiter'. step c self = Inr limiter'"
  by (cases c) (simp_all add: check_unfold Let_def)

lemma step_sorted:
  assumes "sorted (requests_minute self)" and "sorted (requests_day self)"
    and "\<forall>t\<in>set (requests_minute self) \<union> set (requests_day self). t \<le> call_time c"
    and "step c self = Inr limiter'"
  shows "sorted (requests_minute limiter') \<and> sorted (requests_day limiter') \<and>
         (\<forall>t\<in>set (requests_minute limiter') \<union> set (requests_day limiter'). t \<le> call_time c)"
proof (cases c)
  case (Check now)
  with assms(4) have l: "limiter' = self\<lparr>requests_minute := dropWhile (\<lambda>t. now - t > 60) (requests_minute self),
        requests_day := dropWhile (\<lambda>t. now - t > 86400) (requests_day self)\<rparr>"
    by (auto simp: check_unfold Let_def)
  show ?thesis
    using assms(1-3) Check
    by (auto simp: l sorted_dropWhile dest: set_dropWhileD)
next
  case (Record_request now)
  with assms(4) have l: "limiter' = record_request now self" by simp
  show ?thesis
    using assms(1-3) Record_request
    by (auto simp: l record_request_appends sorted_append)
qed

lemma run_sorted:
  assumes "sorted (map call_time cs)"
    and "sorted (requests_minute self)" and "sorted (requests_day self)"
    and "\<forall>t\<in>set (requests_minute self) \<union> set (requests_day self). \<forall>c\<in>set cs. t \<le> call_time c"
  shows "\<exists>limiter'. run cs self = Inr limiter' \<and>
           sorted (requests_minute limiter') \<and> sorted (requests_day limiter')"
  using assms
proof (induction cs arbitrary: self)
  case Nil
  then show ?case by simp
next
  case (Cons c cs)
  obtain l where s: "step c self = Inr l"
    using step_total by blast
  have "\<forall>t\<in>set (requests_minute self) \<union> set (requests_day self). t \<le> call_time c"
    using Cons.prems(4) by simp
  from step_sorted [OF Cons.prems(2,3) this s]
  have l1: "sorted (requests_minute l)" and l2: "sorted (requests_day l)"
    and l3: "\<forall>t\<in>set (requests_minute l) \<union> set (requests_day l). t \<le> call_time c"
    by blast+
  have mono: "\<forall>c'\<in>set cs. call_time c \<le> call_time c'"
    using Cons.prems(1) by simp
  have "\<forall>t\<in>set (requests_minute l) \<union> set (requests_day l). \<forall>c'\<in>set cs. t \<le> call_time c'"
    using l3 mono by (meson order_trans)
  moreover have "sorted (map call_time cs)"
    using Cons.prems(1) by simp
  ultimately obtain l' where "run cs l = Inr l'" "sorted (requests_minute l')" "sorted (requests_day l')"
    using Cons.IH [of l] l1 l2 by blast
  with s show ?case by simp
qed

lemma suffix_dropWhile_both:
  assumes "\<And>x. Q x \<Longrightarrow> P x" and "suffix m d"
  shows "suffix (dropWhile P m) (dropWhile Q d)"
proof -
  from assms(2) obtain pre where d: "d = pre @ m"
    by (auto simp: suffix_def)
  have "suffix (dropWhile P m) (dropWhile Q (pre @ m))"
  proof (induction pre)
    case Nil
    have "dropWhile P (dropWhile Q m) = dropWhile P m"
      using assms(1) by (rule dropWhile_stronger)
    moreover have "suffix (dropWhile P (dropWhile Q m)) (dropWhile Q m)"
      by (rule suffix_dropWhile)
    ultimately show ?case by simp
  next
    case (Cons x pre)
    show ?case
    proof (cases "Q x")
      case True
      with Cons show ?thesis by simp
    next
      case False
      have "suffix (dropWhile P m) m" by (rule suffix_dropWhile)
      then have "suffix (dropWhile P m) ((x # pre) @ m)"
        by (rule suffix_appendI)
      with False show ?thesis by simp
    qed
  qed
  with d show ?thesis by simp
qed

lemma step_suffix:
  assumes "suffix (requests_minute self) (requests_day self)"
    and "step c self = Inr limiter'"
  shows "suffix (requests_minute limiter') (requests_day limiter')"
proof (cases c)
  case (Check now)
  with assms(2) have l: "limiter' = self\<lparr>requests_minute := dropWhile (\<lambda>t. now - t > 60) (requests_minute self),
        requests_day := dropWhile (\<lambda>t. now - t > 86400) (requests_day self)\<rparr>"
    by (auto simp: check_unfold Let_def)
  have "suffix (dropWhile (\<lambda>t. now - t > 60) (requests_minute self))
          (dropWhile (\<lambda>t. now - t > 86400) (requests_day self))"
    using assms(1) by (intro suffix_dropWhile_both) simp_all
  then show ?thesis by (simp add: l)
next
  case (Record_request now)
  with assms show ?thesis
    by (auto simp: record_request_appends)
qed

lemma run_suffix:
  assumes "suffix (requests_minute self) (requests_day self)"
  shows "\<exists>limiter'. run cs self = Inr limiter' \<and>
           suffix (requests_minute limiter') (requests_day limiter')"
  using assms
proof (induction cs arbitrary: self)
  case Nil
  then show ?case by simp
next
  case (Cons c cs)
  obtain l where s: "step c self = Inr l"
    using step_total by blast
  from step_suffix [OF Cons.prems s] Cons.IH [of l] s show ?case by simp
qed

lemma gate_unfold:
  "gate a b self =
     (let m = dropWhile (\<lambda>t. a - t > 60) (requests_minute self);
          d = dropWhile (\<lambda>t. a - t > 86400) (requests_day self);
          self' = self\<lparr>requests_minute := m, requests_day := d\<rparr>
      in if int (length m) \<ge> rpm_limit self then Inr ((True, rpm_message), self')
         else if int (length d) \<ge> daily_limit self then Inr ((True, daily_message), self')
         else Inr ((False, ''''), record_request b self'))"
  by (simp add: gate_def check_def clean_dropWhile Let_def)

lemma gate_accepted:
  assumes "gate a b self = Inr ((False, msg), limiter')"
  shows "requests_minute limiter' = dropWhile (\<lambda>t. a - t > 60) (requests_minute self) @ [b]"
    and "requests_day limiter' = dropWhile (\<lambda>t. a - t > 86400) (requests_day self) @ [b]"
    and "rpm_limit limiter' = rpm_limit self" and "daily_limit limiter' = daily_limit self"
    and "int (length (dropWhile (\<lambda>t. a - t > 60) (requests_minute self))) < rpm_limit self"
    and "int (length (dropWhile (\<lambda>t. a - t > 86400) (requests_day self))) < daily_limit self"
  using assms
  by (auto simp: gate_unfold Let_def record_request_appends split: if_splits)

lemma gate_total: "\<exists>answer limiter'. gate a b self = Inr (answer, limiter')"
  by (auto simp: gate_unfold Let_def)

lemma requests_total: "\<exists>answers limiter'. requests cs self = Inr (answers, limiter')"
proof (induction cs arbitrary: self)
  case Nil
  show ?case by simp
next
  case (Cons c cs)
  obtain a b where c: "c = (a, b)" by (cases c)
  obtain ans l where g: "gate a b self = Inr (ans, l)"
    using gate_total by blast
  from Cons [of l] obtain as l' where "requests cs l = Inr (as, l')" by blast
  with c g show ?case by simp
qed

lemma requests_Cons_accepted:
  assumes "requests ((a, b) # rest) self = Inr (replicate (Suc (length rest)) (False, ''''), limiter)"
  obtains l where "gate a b self = Inr ((False, ''''), l)"
    and "requests rest l = Inr (replicate (length rest) (False, ''''), limiter)"
proof -
  obtain ans l where g: "gate a b self = Inr (ans, l)"
    using gate_total by blast
  obtain as l' where r: "requests rest l = Inr (as, l')"
    using requests_total by blast
  from assms g r have "ans = (False, '''')" "as = replicate (length rest) (False, '''')" "l' = limiter"
    by simp_all
  with g r that show ?thesis by blast
qed

lemma requests_minute_window:
  assumes "requests cs self = Inr (replicate (length cs) (False, ''''), limiter)"
    and "\<forall>(a, b)\<in>set cs. lo \<le> b \<and> a \<le> lo + 60"
    and "requests_minute self = old @ recent" and "\<forall>t\<in>set recent. lo \<le> t"
  shows "\<exists>old'. requests_minute limiter = old' @ recent @ map snd cs \<and>
           rpm_limit limiter = rpm_limit self \<and>
           (cs \<noteq> [] \<longrightarrow> int (length (requests_minute limiter)) \<le> rpm_limit self)"
  using assms
proof (induction cs arbitrary: self old recent)
  case Nil
  then show ?case by simp
next
  case (Cons c rest)
  obtain a b where c: "c = (a, b)" by (cases c)
  from Cons.prems(1) c
  have "requests ((a, b) # rest) self = Inr (replicate (Suc (length rest)) (False, ''''), limiter)"
    by simp
  then obtain l where g: "gate a b self = Inr ((False, ''''), l)"
    and r: "requests rest l = Inr (replicate (length rest) (False, ''''), limiter)"
    by (rule requests_Cons_accepted)
  have ab: "lo \<le> b" "a \<le> lo + 60"
    using Cons.prems(2) c by auto
  have keep: "\<forall>t\<in>set recent. \<not> a - t > 60"
    using Cons.prems(4) ab(2) by fastforce
  have m: "requests_minute l = dropWhile (\<lambda>t. a - t > 60) old @ (recent @ [b])"
    using gate_accepted(1) [OF g] Cons.prems(3) dropWhile_keeps_suffix [OF keep] by simp
  have lim: "rpm_limit l = rpm_limit self"
    by (rule gate_accepted(3) [OF g])
  have len: "int (length (requests_minute l)) \<le> rpm_limit self"
    using gate_accepted(1,5) [OF g] by simp
  have "\<forall>(a, b)\<in>set rest. lo \<le> b \<and> a \<le> lo + 60"
    using Cons.prems(2) by simp
  moreover have "\<forall>t\<in>set (recent @ [b]). lo \<le> t"
    using Cons.prems(4) ab(1) by simp
  ultimately obtain old' where
    o: "requests_minute limiter = old' @ (recent @ [b]) @ map snd rest"
    and l': "rpm_limit limiter = rpm_limit l"
    and le: "rest \<noteq> [] \<longrightarrow> int (length (requests_minute limiter)) \<le> rpm_limit l"
    using Cons.IH [OF r _ m] by blast
  have "int (length (requests_minute limiter)) \<le> rpm_limit self"
  proof (cases rest)
    case Nil
    with r have "limiter = l" by simp
    with len show ?thesis by simp
  next
    case (Cons x xs)
    with le lim show ?thesis by simp
  qed
  with o l' lim c show ?case by simp
qed

lemma requests_day_window:
  assumes "requests cs self = Inr (replicate (length cs) (False, ''''), limiter)"
    and "\<forall>(a, b)\<in>set cs. lo \<le> b \<and> a \<le> lo + 86400"
    and "requests_day self = old @ recent" and "\<forall>t\<in>set recent. lo \<le> t"
  shows "\<exists>old'. requests_day limiter = old' @ recent @ map snd cs \<and>
           daily_limit limiter = daily_limit self \<and> rpm_limit limiter = rpm_limit self"
  using assms
proof (induction cs arbitrary: self old recent)
  case Nil
  then show ?case by simp
next
  case (Cons c rest)
  obtain a b where c: "c = (a, b)" by (cases c)
  from Cons.prems(1) c
  have "requests ((a, b) # rest) self = Inr (replicate (Suc (length rest)) (False, ''''), limiter)"
    by simp
  then obtain l where g: "gate a b self = Inr ((False, ''''), l)"
    and r: "requests rest l = Inr (replicate (length rest) (False, ''''), limiter)"
    by (rule requests_Cons_accepted)
  have ab: "lo \<le> b" "a \<le> lo + 86400"
    using Cons.prems(2) c by auto
  have keep: "\<forall>t\<in>set recent. \<not> a - t > 86400"
    using Cons.prems(4) ab(2) by fastforce
  have m: "requests_day l = dropWhile (\<lambda>t. a - t > 86400) old @ (recent @ [b])"
    using gate_accepted(2) [OF g] Cons.prems(3) dropWhile_keeps_suffix [OF keep] by simp
  have "\<forall>(a, b)\<in>set rest. lo \<le> b \<and> a \<le> lo + 86400"
    using Cons.prems(2) by simp
  moreover have "\<forall>t\<in>set (recent @ [b]). lo \<le> t"
    using Cons.prems(4) ab(1) by simp
  ultimately obtain old' where
    "requests_day limiter = old' @ (recent @ [b]) @ map snd rest"
    "daily_limit limiter = daily_limit l" "rpm_limit limiter = rpm_limit l"
    using Cons.IH [OF r _ m] by blast
  with gate_accepted(3,4) [OF g] c show ?case by simp
qed

lemma clock_member:
  "(a, b) \<in> set cs \<Longrightarrow> a \<in> set (clock cs) \<and> b \<in> set (clock cs)"
  by (induction cs rule: clock.induct) auto

lemma clock_sorted_pairs:
  "sorted (clock cs @ ts) \<Longrightarrow> \<forall>(a, b)\<in>set cs. a \<le> b"
  by (induction cs rule: clock.induct) auto

lemma clock_sorted_first:
  "sorted (clock ((a1, b1) # rest) @ ts) \<Longrightarrow> \<forall>(a, b)\<in>set rest. b1 \<le> a \<and> b1 \<le> b"
  by (auto dest: clock_member)

lemma clock_sorted_last:
  "sorted (clock cs @ ts) \<Longrightarrow> \<forall>(a, b)\<in>set cs. \<forall>t\<in>set ts. a \<le> t \<and> b \<le> t"
  by (auto simp: sorted_append dest: clock_member)

lemma checks_windows:
  assumes "\<forall>u\<in>set ts. u \<le> t" and "checks ts self = Inr (answers, limiter')"
  shows "dropWhile (\<lambda>x. t - x > 60) (requests_minute limiter') = dropWhile (\<lambda>x. t - x > 60) (requests_minute self)"
   and "dropWhile (\<lambda>x. t - x > 86400) (requests_day limiter') = dropWhile (\<lambda>x. t - x > 86400) (requests_day self)"
   and "rpm_limit limiter' = rpm_limit self" and "daily_limit limiter' = daily_limit self"
proof -
  have "dropWhile (\<lambda>x. t - x > 60) (requests_minute limiter') = dropWhile (\<lambda>x. t - x > 60) (requests_minute self) \<and>
    dropWhile (\<lambda>x. t - x > 86400) (requests_day limiter') = dropWhile (\<lambda>x. t - x > 86400) (requests_day self) \<and>
    rpm_limit limiter' = rpm_limit self \<and> daily_limit limiter' = daily_limit self"
    using assms
  proof (induction ts arbitrary: self answers)
    case Nil
    then show ?case by simp
  next
    case (Cons u ts)
    obtain a l where c: "check u self = Inr (a, l)"
      using check_total by blast
    obtain as l' where cs: "checks ts l = Inr (as, l')"
      using checks_total by blast
    from Cons.prems(2) c cs have e: "l' = limiter'" by simp
    have ih: "dropWhile (\<lambda>x. t - x > 60) (requests_minute limiter') = dropWhile (\<lambda>x. t - x > 60) (requests_minute l) \<and>
      dropWhile (\<lambda>x. t - x > 86400) (requests_day limiter') = dropWhile (\<lambda>x. t - x > 86400) (requests_day l) \<and>
      rpm_limit limiter' = rpm_limit l \<and> daily_limit limiter' = daily_limit l"
      using Cons.IH [of l as] Cons.prems(1) cs e by simp
    from c have l: "l = self\<lparr>requests_minute := dropWhile (\<lambda>x. u - x > 60) (requests_minute self),
        requests_day := dropWhile (\<lambda>x. u - x > 86400) (requests_day self)\<rparr>"
      by (simp add: check_unfold Let_def split: if_splits)
    have ut: "u \<le> t" using Cons.prems(1) by simp
    have m: "dropWhile (\<lambda>x. t - x > 60) (dropWhile (\<lambda>x. u - x > 60) (requests_minute self))
        = dropWhile (\<lambda>x. t - x > 60) (requests_minute self)"
      using ut by (intro dropWhile_stronger) simp
    have d: "dropWhile (\<lambda>x. t - x > 86400) (dropWhile (\<lambda>x. u - x > 86400) (requests_day self))
        = dropWhile (\<lambda>x. t - x > 86400) (requests_day self)"
      using ut by (intro dropWhile_stronger) simp
    from ih show ?case by (simp add: l m d)
  qed
  then show "dropWhile (\<lambda>x. t - x > 60) (requests_minute limiter') = dropWhile (\<lambda>x. t - x > 60) (requests_minute self)"
   and "dropWhile (\<lambda>x. t - x > 86400) (requests_day limiter') = dropWhile (\<lambda>x. t - x > 86400) (requests_day self)"
   and "rpm_limit limiter' = rpm_limit self" and "daily_limit limiter' = daily_limit self"
    by simp_all
qed

lemma rpm_limit_reached:
  assumes acc: "requests cs limiter0 = Inr (replicate (length cs) (False, ''''), limiter)"
    and lim: "rpm_limit limiter0 = int (length cs)"
    and srt: "sorted (clock cs @ [now])"
    and span: "\<forall>(a, b)\<in>set cs. now - b \<le> 60"
  shows "\<exists>limiter'. check now limiter = Inr ((True, rpm_message), limiter')"
proof -
  have "\<forall>(a, b)\<in>set cs. now - 60 \<le> b \<and> a \<le> (now - 60) + 60"
    using span clock_sorted_last [OF srt] by fastforce
  from requests_minute_window [OF acc this, of "requests_minute limiter0" "[]"]
  obtain old' where m: "requests_minute limiter = old' @ map snd cs"
    and l: "rpm_limit limiter = rpm_limit limiter0"
    by auto
  have keep: "\<forall>t\<in>set (map snd cs). \<not> now - t > 60"
    using span by fastforce
  have "dropWhile (\<lambda>t. now - t > 60) (requests_minute limiter)
          = dropWhile (\<lambda>t. now - t > 60) old' @ map snd cs"
    unfolding m by (rule dropWhile_keeps_suffix [OF keep])
  then have "rpm_limit limiter \<le> int (length (dropWhile (\<lambda>t. now - t > 60) (requests_minute limiter)))"
    using l lim by simp
  then show ?thesis
    by (simp add: check_unfold Let_def)
qed

lemma rpm_limit_released:
  assumes acc: "requests ((a1, b1) # rest) limiter0 =
                  Inr (replicate (Suc (length rest)) (False, ''''), limiter)"
    and lim: "rpm_limit limiter0 = int (Suc (length rest))"
    and srt: "sorted (clock ((a1, b1) # rest) @ mids @ [later])"
    and span: "\<forall>(a, b)\<in>set rest. b - b1 \<le> 60"
    and mids: "checks mids limiter = Inr (answers, limiter1)"
    and late: "later - b1 > 60"
    and day: "int (length (dropWhile (\<lambda>t. later - t > 86400) (requests_day limiter1)))
                < daily_limit limiter1"
  shows "\<exists>limiter2. check later limiter1 = Inr ((False, ''''), limiter2)"
proof -
  let ?cs = "(a1, b1) # rest"
  have acc': "requests ?cs limiter0 = Inr (replicate (length ?cs) (False, ''''), limiter)"
    using acc by simp
  have pairs: "\<forall>(a, b)\<in>set ?cs. a \<le> b"
    using clock_sorted_pairs [OF srt] .
  have first: "\<forall>(a, b)\<in>set rest. b1 \<le> a \<and> b1 \<le> b"
    using clock_sorted_first [OF srt] .
  have "\<forall>(a, b)\<in>set ?cs. b1 \<le> b \<and> a \<le> b1 + 60"
    using pairs first span by fastforce
  from requests_minute_window [OF acc' this, of "requests_minute limiter0" "[]"]
  obtain old' where m: "requests_minute limiter = old' @ map snd ?cs"
    and l: "rpm_limit limiter = rpm_limit limiter0"
    and le: "int (length (requests_minute limiter)) \<le> rpm_limit limiter0"
    by auto
  from m le lim have "old' = []" by simp
  with m have m': "requests_minute limiter = b1 # map snd rest" by simp
  have "\<forall>u\<in>set mids. u \<le> later"
    using srt by (auto simp: sorted_append)
  note w = checks_windows [OF this mids]
  have "dropWhile (\<lambda>t. later - t > 60) (requests_minute limiter1)
          = dropWhile (\<lambda>t. later - t > 60) (map snd rest)"
    using w(1) m' late by simp
  then have "length (dropWhile (\<lambda>t. later - t > 60) (requests_minute limiter1)) \<le> length rest"
    using length_dropWhile_le [of "\<lambda>t. later - t > 60" "map snd rest"] by simp
  then have "\<not> rpm_limit limiter1 \<le> int (length (dropWhile (\<lambda>t. later - t > 60) (requests_minute limiter1)))"
    using w(3) l lim by simp
  with day show ?thesis
    by (simp add: check_unfold Let_def)
qed

lemma three_requests:
  assumes "sorted [c1, c2, c3, c4, c5 :: real]" and "c5 - c2 \<le> 60"
  shows "\<exists>limiter. requests [(c1, c2), (c3, c4), (c5, c6)] (init 2 10) =
           Inr ([(False, ''''), (False, ''''), (True, rpm_message)], limiter)"
proof -
  from assms have "\<not> c3 - c2 > 60" "\<not> c5 - c2 > 60" "\<not> c5 - c4 > 60"
    by auto
  then show ?thesis
    by (simp add: gate_unfold init_def record_request_appends Let_def record_request_def deque_append_def)
qed

lemma daily_limit_reached:
  assumes acc: "requests cs limiter0 = Inr (replicate (length cs) (False, ''''), limiter)"
    and lim: "daily_limit limiter0 = int (length cs)"
    and srt: "sorted (clock cs @ [now])"
    and span: "\<forall>(a, b)\<in>set cs. now - b \<le> 86400"
  shows "\<exists>limiter'. check now limiter =
           Inr ((True, if rpm_limit limiter \<le> int (length (requests_minute limiter'))
                       then rpm_message else daily_message), limiter')"
proof -
  have "\<forall>(a, b)\<in>set cs. now - 86400 \<le> b \<and> a \<le> (now - 86400) + 86400"
    using span clock_sorted_last [OF srt] by fastforce
  from requests_day_window [OF acc this, of "requests_day limiter0" "[]"]
  obtain old' where m: "requests_day limiter = old' @ map snd cs"
    and l: "daily_limit limiter = daily_limit limiter0"
    by auto
  have keep: "\<forall>t\<in>set (map snd cs). \<not> now - t > 86400"
    using span by fastforce
  have "dropWhile (\<lambda>t. now - t > 86400) (requests_day limiter)
          = dropWhile (\<lambda>t. now - t > 86400) old' @ map snd cs"
    unfolding m by (rule dropWhile_keeps_suffix [OF keep])
  then have "daily_limit limiter \<le> int (length (dropWhile (\<lambda>t. now - t > 86400) (requests_day limiter)))"
    using l lim by simp
  then show ?thesis
    by (simp add: check_unfold Let_def)
qed

section \<open>The windows over a run of calls\<close>

text \<open>
  C7. Starting from a new limiter, after any sequence of \<open>check\<close> and \<open>record_request\<close>
  calls whose clock readings do not decrease, the minute deque and the day deque are
  sorted ascending. \<open>record_request\<close> removes nothing: it appends its clock reading to
  each deque. The only operation that removes a timestamp is \<open>check\<close>, in its cleaning
  loops (C1).
\<close>

theorem windows_stay_sorted:
  "(sorted (map call_time cs) \<longrightarrow>
      (\<exists>limiter. run cs (init rpm daily) = Inr limiter \<and>
         sorted (requests_minute limiter) \<and> sorted (requests_day limiter))) \<and>
   requests_minute (record_request t self) = requests_minute self @ [t] \<and>
   requests_day (record_request t self) = requests_day self @ [t]"
proof -
  have "sorted (map call_time cs) \<Longrightarrow>
      \<exists>limiter. run cs (init rpm daily) = Inr limiter \<and>
         sorted (requests_minute limiter) \<and> sorted (requests_day limiter)"
    by (rule run_sorted) (simp_all add: init_def)
  then show ?thesis
    by (simp add: record_request_appends)
qed

theorem windows_stay_sorted_witness:
  "sorted (map call_time [Record_request 1, Check 2, Record_request 70, Check 100]) \<and>
   (\<exists>limiter.
      run [Record_request 1, Check 2, Record_request 70, Check 100] (init 2 10) = Inr limiter \<and>
      sorted (requests_minute limiter) \<and> sorted (requests_day limiter))"
proof -
  have h: "sorted (map call_time [Record_request 1, Check 2, Record_request 70, Check 100])"
    by simp
  from windows_stay_sorted [of "[Record_request 1, Check 2, Record_request 70, Check 100]" 2 10]
  show ?thesis using h by blast
qed

text \<open>
  C9. \<open>record_request\<close> appends one and the same clock reading to both deques. Starting
  from a new limiter, after any sequence of \<open>check\<close> and \<open>record_request\<close> calls,
  whatever the clock readings (nondecreasing ones included), the minute deque is a
  suffix of the day deque and is not longer than it.
\<close>

theorem minute_window_suffix_of_day_window:
  "requests_minute (record_request t self) = requests_minute self @ [t] \<and>
   requests_day (record_request t self) = requests_day self @ [t] \<and>
   (\<exists>limiter. run cs (init rpm daily) = Inr limiter \<and>
      suffix (requests_minute limiter) (requests_day limiter) \<and>
      length (requests_minute limiter) \<le> length (requests_day limiter))"
proof -
  have "suffix (requests_minute (init rpm daily)) (requests_day (init rpm daily))"
    by (simp add: init_def)
  from run_suffix [OF this, of cs] obtain limiter where
    "run cs (init rpm daily) = Inr limiter"
    "suffix (requests_minute limiter) (requests_day limiter)" by blast
  moreover from this have "length (requests_minute limiter) \<le> length (requests_day limiter)"
    by (simp add: suffix_length_le)
  ultimately show ?thesis
    by (auto simp: record_request_appends)
qed

section \<open>Reaching the limits\<close>

text \<open>
  C2. Let \<open>rpm_limit\<close> be \<open>r\<close> and let \<open>r\<close> requests pass the gate (each a \<open>check\<close>
  that answers not limited, followed by \<open>record_request\<close>), the clock never going back.

  First part: if all \<open>r\<close> recorded timestamps are at most 60 seconds old at the next
  \<open>check\<close>, that \<open>check\<close> answers limited with the per-minute message.

  Second part: if the \<open>r\<close> timestamps lie within 60 seconds of the earliest one \<open>b1\<close>,
  then after any further calls of \<open>check\<close>, a \<open>check\<close> made more than 60 seconds after
  \<open>b1\<close> answers not limited, provided the day deque it leaves is shorter than
  \<open>daily_limit\<close>.

  Third part: with \<open>rpm_limit = 2\<close> and \<open>daily_limit = 10\<close>, three requests in a row
  within 60 seconds of the first recorded timestamp are answered not limited, not
  limited, and limited with the per-minute message.
\<close>

theorem rpm_limit_blocks_then_releases:
  "(\<forall>cs limiter0 limiter now.
      requests cs limiter0 = Inr (replicate (length cs) (False, ''''), limiter) \<and>
      rpm_limit limiter0 = int (length cs) \<and>
      sorted (clock cs @ [now]) \<and> (\<forall>(a, b)\<in>set cs. now - b \<le> 60) \<longrightarrow>
      (\<exists>limiter'. check now limiter = Inr ((True, rpm_message), limiter'))) \<and>
   (\<forall>a1 b1 rest limiter0 limiter mids answers limiter1 later.
      requests ((a1, b1) # rest) limiter0 =
        Inr (replicate (Suc (length rest)) (False, ''''), limiter) \<and>
      rpm_limit limiter0 = int (Suc (length rest)) \<and>
      sorted (clock ((a1, b1) # rest) @ mids @ [later]) \<and>
      (\<forall>(a, b)\<in>set rest. b - b1 \<le> 60) \<and>
      checks mids limiter = Inr (answers, limiter1) \<and>
      later - b1 > 60 \<and>
      int (length (dropWhile (\<lambda>t. later - t > 86400) (requests_day limiter1)))
        < daily_limit limiter1 \<longrightarrow>
      (\<exists>limiter2. check later limiter1 = Inr ((False, ''''), limiter2))) \<and>
   (\<forall>c1 c2 c3 c4 c5 c6.
      sorted [c1, c2, c3, c4, c5] \<and> c5 - c2 \<le> 60 \<longrightarrow>
      (\<exists>limiter. requests [(c1, c2), (c3, c4), (c5, c6)] (init 2 10) =
         Inr ([(False, ''''), (False, ''''), (True, rpm_message)], limiter)))"
proof (intro conjI allI impI)
  fix cs limiter0 limiter now
  assume "requests cs limiter0 = Inr (replicate (length cs) (False, ''''), limiter) \<and>
      rpm_limit limiter0 = int (length cs) \<and>
      sorted (clock cs @ [now]) \<and> (\<forall>(a, b)\<in>set cs. now - b \<le> 60)"
  then show "\<exists>limiter'. check now limiter = Inr ((True, rpm_message), limiter')"
    using rpm_limit_reached by blast
next
  fix a1 b1 rest limiter0 limiter mids answers limiter1 later
  assume "requests ((a1, b1) # rest) limiter0 =
        Inr (replicate (Suc (length rest)) (False, ''''), limiter) \<and>
      rpm_limit limiter0 = int (Suc (length rest)) \<and>
      sorted (clock ((a1, b1) # rest) @ mids @ [later]) \<and>
      (\<forall>(a, b)\<in>set rest. b - b1 \<le> 60) \<and>
      checks mids limiter = Inr (answers, limiter1) \<and>
      later - b1 > 60 \<and>
      int (length (dropWhile (\<lambda>t. later - t > 86400) (requests_day limiter1)))
        < daily_limit limiter1"
  then show "\<exists>limiter2. check later limiter1 = Inr ((False, ''''), limiter2)"
    using rpm_limit_released [of a1 b1 rest limiter0 limiter mids later answers limiter1]
    by blast
next
  fix c1 c2 c3 c4 c5 c6 :: real
  assume "sorted [c1, c2, c3, c4, c5] \<and> c5 - c2 \<le> 60"
  then show "\<exists>limiter. requests [(c1, c2), (c3, c4), (c5, c6)] (init 2 10) =
         Inr ([(False, ''''), (False, ''''), (True, rpm_message)], limiter)"
    using three_requests [of c1 c2 c3 c4 c5 c6] by blast
qed

theorem rpm_limit_blocks_then_releases_witness:
  "requests [(0, 1), (2, 3)] (init 2 10) =
     Inr ([(False, ''''), (False, '''')],
          \<lparr>rpm_limit = 2, daily_limit = 10, requests_minute = [1, 3], requests_day = [1, 3]\<rparr>) \<and>
   (\<exists>limiter'.
      check 10 \<lparr>rpm_limit = 2, daily_limit = 10, requests_minute = [1, 3], requests_day = [1, 3]\<rparr>
        = Inr ((True, rpm_message), limiter')) \<and>
   (\<exists>limiter2.
      check 62 \<lparr>rpm_limit = 2, daily_limit = 10, requests_minute = [1, 3], requests_day = [1, 3]\<rparr>
        = Inr ((False, ''''), limiter2)) \<and>
   (\<exists>limiter. requests [(0, 1), (2, 3), (4, 5)] (init 2 10) =
      Inr ([(False, ''''), (False, ''''), (True, rpm_message)], limiter))"
proof -
  let ?l = "\<lparr>rpm_limit = 2, daily_limit = 10, requests_minute = [1, 3], requests_day = [1, 3]\<rparr>"
  have acc: "requests [(0, 1), (2, 3)] (init 2 10) = Inr ([(False, ''''), (False, '''')], ?l)"
    by (simp add: gate_unfold init_def record_request_def deque_append_def Let_def)
  have mids: "checks [10] ?l = Inr ([(True, rpm_message)], ?l)"
    by (simp add: check_unfold Let_def)
  have one: "\<exists>limiter'. check 10 ?l = Inr ((True, rpm_message), limiter')"
    using rpm_limit_blocks_then_releases
      [THEN conjunct1, rule_format, of "[(0, 1), (2, 3)]" "init 2 10" ?l 10] acc
    by (simp add: init_def)
  have two: "\<exists>limiter2. check 62 ?l = Inr ((False, ''''), limiter2)"
    using rpm_limit_blocks_then_releases
      [THEN conjunct2, THEN conjunct1, rule_format,
        of 0 1 "[(2, 3)]" "init 2 10" ?l "[10]" 62 "[(True, rpm_message)]" ?l] acc mids
    by (simp add: init_def)
  have three: "\<exists>limiter. requests [(0, 1), (2, 3), (4, 5)] (init 2 10) =
      Inr ([(False, ''''), (False, ''''), (True, rpm_message)], limiter)"
    using rpm_limit_blocks_then_releases
      [THEN conjunct2, THEN conjunct2, rule_format, of 0 1 2 3 4 5]
    by simp
  from acc one two three show ?thesis by blast
qed

text \<open>
  C3. Let \<open>daily_limit\<close> be \<open>d\<close> and let \<open>d\<close> requests pass the gate, the clock never
  going back. If all \<open>d\<close> recorded timestamps are at most 86400 seconds old at the next
  \<open>check\<close>, that \<open>check\<close> answers limited, whatever the minute deque holds and whatever
  \<open>rpm_limit\<close> is: with the per-minute message if the minute limit is reached as
  well, with the per-day message otherwise.
\<close>

theorem daily_limit_blocks:
  assumes "requests cs limiter0 = Inr (replicate (length cs) (False, ''''), limiter)"
    and "daily_limit limiter0 = int (length cs)"
    and "sorted (clock cs @ [now])"
    and "\<forall>(a, b)\<in>set cs. now - b \<le> 86400"
  shows "\<exists>limiter'. check now limiter =
           Inr ((True, if rpm_limit limiter \<le> int (length (requests_minute limiter'))
                       then rpm_message else daily_message), limiter')"
  using assms by (rule daily_limit_reached)

theorem daily_limit_blocks_witness:
  "requests [(0, 1), (2, 3)] (init 5 2) =
     Inr (replicate (length [(0, 1), (2, 3 :: real)]) (False, ''''),
          \<lparr>rpm_limit = 5, daily_limit = 2, requests_minute = [1, 3], requests_day = [1, 3]\<rparr>) \<and>
   daily_limit (init 5 2) = int (length [(0, 1), (2, 3 :: real)]) \<and>
   sorted (clock [(0, 1), (2, 3)] @ [100]) \<and>
   (100 :: real) - 1 \<le> 86400 \<and> (100 :: real) - 3 \<le> 86400 \<and>
   (\<exists>limiter'.
      check 100 \<lparr>rpm_limit = 5, daily_limit = 2, requests_minute = [1, 3], requests_day = [1, 3]\<rparr>
        = Inr ((True, if 5 \<le> int (length (requests_minute limiter'))
                      then rpm_message else daily_message), limiter'))"
proof -
  let ?l = "\<lparr>rpm_limit = 5, daily_limit = 2, requests_minute = [1, 3], requests_day = [1, 3]\<rparr>"
  have h1: "requests [(0, 1), (2, 3)] (init 5 2)
              = Inr (replicate (length [(0, 1), (2, 3 :: real)]) (False, ''''), ?l)"
    by (simp add: gate_unfold init_def record_request_def deque_append_def Let_def)
  have h2: "daily_limit (init 5 2) = int (length [(0, 1), (2, 3 :: real)])"
    by (simp add: init_def)
  have h3: "sorted (clock [(0, 1), (2, 3)] @ [100])" by simp
  have h4: "\<forall>(a, b)\<in>set [(0, 1), (2, 3 :: real)]. 100 - b \<le> (86400 :: real)" by simp
  from daily_limit_blocks [OF h1 h2 h3 h4] h1 h2 h3 h4 show ?thesis by simp
qed

section \<open>Matching the dice notation\<close>

subsection \<open>Facts read off the character tables\<close>

lemma lower_ranges_miss_digits:
  "list_all (\<lambda>(lo, hi, stride, target).
               list_all (\<lambda>zero. hi < zero \<or> zero + 9 < lo) decimal_zeros) lower_ranges"
  by (simp add: lower_ranges_def decimal_zeros_def)

lemma not_digit_points:
  "\<not> is_digit 304" "\<not> is_digit 931" "\<not> is_digit 962" "\<not> is_digit 963" "\<not> is_digit 100"
  "\<not> is_digit 97" "\<not> is_digit 98" "\<not> is_digit 99" "\<not> is_digit 120"
  by (simp_all add: is_digit_def decimal_def decimal_zeros_def)

lemma to_lower_full_points:
  "to_lower_full 68 = [100]" "to_lower_full 100 = [100]" "to_lower_full 97 = [97]"
  "to_lower_full 98 = [98]" "to_lower_full 99 = [99]" "to_lower_full 120 = [120]"
  by (simp_all add: to_lower_full_def lower_ranges_def)

lemma decimal_ascii: "48 \<le> c \<Longrightarrow> c \<le> 57 \<Longrightarrow> decimal c = Some (c - 48)"
  by (simp add: decimal_def decimal_zeros_def)

lemma is_digit_ascii: "48 \<le> c \<Longrightarrow> c \<le> 57 \<Longrightarrow> is_digit c"
  by (simp add: is_digit_def decimal_ascii)

lemma decimal_in_run:
  assumes "decimal c = Some d"
  shows "\<exists>zero\<in>set decimal_zeros. zero \<le> c \<and> c < zero + 10"
proof -
  from assms obtain zero where "find (\<lambda>zero. zero \<le> c \<and> c < zero + 10) decimal_zeros = Some zero"
    by (auto simp: decimal_def split: option.splits)
  then show ?thesis
    by (auto simp: find_Some_iff)
qed

lemma to_lower_full_digit:
  assumes "is_digit c"
  shows "to_lower_full c = [c]"
proof -
  from assms obtain zero where z: "zero \<in> set decimal_zeros" "zero \<le> c" "c < zero + 10"
    using decimal_in_run by (auto simp: is_digit_def)
  have out: "\<not> (lo \<le> c \<and> c \<le> hi)"
    if "(lo, hi, stride, target) \<in> set lower_ranges" for lo hi stride target
  proof -
    from that z(1) lower_ranges_miss_digits have "hi < zero \<or> zero + 9 < lo"
      by (auto simp: list_all_iff)
    with z(2,3) show ?thesis by auto
  qed
  have "find (\<lambda>(lo, hi, stride, target). lo \<le> c \<and> c \<le> hi \<and> (c - lo) mod stride = 0)
               lower_ranges = None"
    unfolding find_None_iff
  proof
    assume "\<exists>x. x \<in> set lower_ranges \<and>
                (case x of (lo, hi, stride, target) \<Rightarrow>
                   lo \<le> c \<and> c \<le> hi \<and> (c - lo) mod stride = 0)"
    then obtain lo hi stride target where "(lo, hi, stride, target) \<in> set lower_ranges"
      and "lo \<le> c \<and> c \<le> hi"
      by auto
    with out show False by blast
  qed
  moreover from assms not_digit_points(1) have "c \<noteq> 304" by auto
  ultimately show ?thesis
    by (simp add: to_lower_full_def)
qed

subsection \<open>\<open>str.lower\<close> on a notation\<close>

lemma lower_from_no_sigma:
  "931 \<notin> set s \<Longrightarrow> lower_from before s = concat (map to_lower_full s)"
  by (induction s arbitrary: before) simp_all

lemma concat_lower_digits: "list_all is_digit g \<Longrightarrow> concat (map to_lower_full g) = g"
  by (induction g) (simp_all add: to_lower_full_digit)

lemma digits_no_sigma: "list_all is_digit g \<Longrightarrow> 931 \<notin> set g"
  using not_digit_points(2) by (auto simp: list_all_iff)

lemma lower_notation:
  assumes "list_all is_digit g1" and "list_all is_digit g2"
  shows "lower (g1 @ [100] @ g2) = g1 @ [100] @ g2"
    and "lower (g1 @ [68] @ g2) = g1 @ [100] @ g2"
proof -
  from assms have "931 \<notin> set (g1 @ [100] @ g2)" and "931 \<notin> set (g1 @ [68] @ g2)"
    by (simp_all add: digits_no_sigma)
  then show "lower (g1 @ [100] @ g2) = g1 @ [100] @ g2"
    and "lower (g1 @ [68] @ g2) = g1 @ [100] @ g2"
    using assms
    by (simp_all add: lower_def lower_from_no_sigma concat_lower_digits to_lower_full_points)
qed

lemma handle_capital_sigma_cases:
  "handle_capital_sigma before after = 962 \<or> handle_capital_sigma before after = 963"
  by (simp add: handle_capital_sigma_def Let_def)

lemma lower_from_sigma:
  "931 \<in> set s \<Longrightarrow> 962 \<in> set (lower_from before s) \<or> 963 \<in> set (lower_from before s)"
proof (induction s arbitrary: before)
  case Nil
  then show ?case by simp
next
  case (Cons c s)
  show ?case
  proof (cases "c = 931")
    case True
    with handle_capital_sigma_cases [of before s] show ?thesis by auto
  next
    case False
    with Cons.prems have "931 \<in> set s" by simp
    from Cons.IH [OF this, of "before @ [c]"] show ?thesis by auto
  qed
qed

subsection \<open>The pattern\<close>

text \<open>
  \<open>fullmatch_dice\<close> against the pattern as it reads: the whole string is a nonempty
  run of digits, the letter \<open>d\<close>, and a nonempty run of digits.
\<close>

lemma fullmatch_dice_iff:
  "fullmatch_dice s = Some (g1, g2) \<longleftrightarrow>
     s = g1 @ [100] @ g2 \<and> g1 \<noteq> [] \<and> list_all is_digit g1 \<and> g2 \<noteq> [] \<and> list_all is_digit g2"
proof
  assume m: "fullmatch_dice s = Some (g1, g2)"
  then have g1: "g1 = takeWhile is_digit s" and r: "dropWhile is_digit s = 100 # g2"
    and ne: "g1 \<noteq> []" "g2 \<noteq> []" and d2: "list_all is_digit g2"
    by (auto simp: fullmatch_dice_def Let_def split: list.splits if_splits)
  have "s = takeWhile is_digit s @ dropWhile is_digit s" by simp
  with g1 r have "s = g1 @ [100] @ g2" by simp
  moreover have "list_all is_digit g1"
    unfolding g1 by (simp add: list_all_iff) (meson set_takeWhileD)
  ultimately show "s = g1 @ [100] @ g2 \<and> g1 \<noteq> [] \<and> list_all is_digit g1 \<and>
      g2 \<noteq> [] \<and> list_all is_digit g2"
    using ne d2 by simp
next
  assume a: "s = g1 @ [100] @ g2 \<and> g1 \<noteq> [] \<and> list_all is_digit g1 \<and>
      g2 \<noteq> [] \<and> list_all is_digit g2"
  then have all: "\<And>x. x \<in> set g1 \<Longrightarrow> is_digit x"
    by (simp add: list_all_iff)
  have t: "takeWhile is_digit (g1 @ 100 # g2) = g1"
    using all not_digit_points(5) by (simp add: takeWhile_append2)
  have d: "dropWhile is_digit (g1 @ 100 # g2) = 100 # g2"
    using all not_digit_points(5) by (simp add: dropWhile_append2)
  from a t d show "fullmatch_dice s = Some (g1, g2)"
    by (simp add: fullmatch_dice_def Let_def)
qed

lemma fullmatch_dice_chars:
  assumes "fullmatch_dice s = Some g" and "x \<in> set s"
  shows "is_digit x \<or> x = 100"
proof -
  obtain g1 g2 where "g = (g1, g2)" by (cases g)
  with assms(1) have "s = g1 @ [100] @ g2 \<and> g1 \<noteq> [] \<and> list_all is_digit g1 \<and>
      g2 \<noteq> [] \<and> list_all is_digit g2"
    by (simp add: fullmatch_dice_iff)
  with assms(2) show ?thesis
    by (auto simp: list_all_iff)
qed

lemma sigma_no_match:
  assumes "931 \<in> set dice"
  shows "fullmatch_dice (lower dice) = None"
proof (rule ccontr)
  assume "fullmatch_dice (lower dice) \<noteq> None"
  then obtain g where g: "fullmatch_dice (lower dice) = Some g" by auto
  from lower_from_sigma [OF assms, of "[]"]
  have "962 \<in> set (lower dice) \<or> 963 \<in> set (lower dice)"
    by (simp add: lower_def)
  moreover have "(962 :: nat) \<noteq> 100" and "(963 :: nat) \<noteq> 100"
    by simp_all
  ultimately show False
    using fullmatch_dice_chars [OF g] not_digit_points(3,4) by blast
qed

lemma lower_separator:
  "fullmatch_dice (lower (g1 @ [68] @ g2)) = fullmatch_dice (lower (g1 @ [100] @ g2))"
proof (cases "931 \<in> set g1 \<union> set g2")
  case True
  then have "931 \<in> set (g1 @ [68] @ g2)" and "931 \<in> set (g1 @ [100] @ g2)"
    by auto
  then show ?thesis
    by (simp only: sigma_no_match)
next
  case False
  then have "931 \<notin> set (g1 @ [68] @ g2)" and "931 \<notin> set (g1 @ [100] @ g2)"
    by auto
  then have "lower (g1 @ [68] @ g2) = lower (g1 @ [100] @ g2)"
    by (simp add: lower_def lower_from_no_sigma to_lower_full_points)
  then show ?thesis by simp
qed

subsection \<open>\<open>int\<close> of a group\<close>

lemma int_of_group_value:
  "g \<noteq> [] \<Longrightarrow> length g \<le> 4300 \<Longrightarrow> int_of_group g = int_digits 0 g"
  by (simp add: int_of_group_def int_max_str_digits_def)




subsection \<open>The three ways through the validation\<close>

lemma diceroll_accepts:
  assumes "lower dice = g1 @ [100] @ g2"
    and "g1 \<noteq> []" and "list_all is_digit g1" and "length g1 \<le> 4300"
    and "g2 \<noteq> []" and "list_all is_digit g2" and "length g2 \<le> 4300"
    and "int_digits 0 g1 = Inr n" and "int_digits 0 g2 = Inr m"
    and "1 \<le> n" and "n \<le> 100" and "2 \<le> m" and "m \<le> 1000"
  shows "diceroll dice t1 t2 l = gated_roll n m t1 t2 l"
proof -
  have "fullmatch_dice (lower dice) = Some (g1, g2)"
    using assms(1,2,3,5,6) by (simp add: fullmatch_dice_iff)
  moreover have "int_of_group g1 = Inr n" and "int_of_group g2 = Inr m"
    using assms(2,4,5,7,8,9) by (simp_all add: int_of_group_value)
  ultimately show ?thesis
    using assms(10-13) by (simp add: diceroll_def)
qed




lemma ascii_examples:
  "map of_char ''2d6'' = [50] @ [100] @ [54 :: nat]"
  "map of_char ''1d20'' = [49] @ [100] @ [50, 48 :: nat]"
  "map of_char ''0d6'' = [48] @ [100] @ [54 :: nat]"
  "map of_char ''101d6'' = [49, 48, 49] @ [100] @ [54 :: nat]"
  "map of_char ''2d1'' = [50] @ [100] @ [49 :: nat]"
  "map of_char ''2d1001'' = [50] @ [100] @ [49, 48, 48, 49 :: nat]"
  "map of_char ''abc'' = [97, 98, 99 :: nat]"
  "map of_char ''2xd6'' = [50, 120, 100, 54 :: nat]"
  "map of_char ''2D6'' = [50] @ [68] @ [54 :: nat]"
  "map of_char ''10d100'' = [49, 48] @ [100] @ [49, 48, 48 :: nat]"
  "map of_char ''10D100'' = [49, 48] @ [68] @ [49, 48, 48 :: nat]"
  "map of_char ''d6'' = [100, 54 :: nat]"
  by simp_all

section \<open>The dice notation\<close>




text \<open>
  C10. The separator is matched without regard to case, because the input is put in
  lower case before the match: writing \<open>D\<close> (U+0044, the code point 68) for the
  separator \<open>d\<close> never changes what \<open>diceroll\<close> does, whatever stands before and after
  it. So for every notation that \<open>diceroll\<close> accepts (decimal digits, \<open>d\<close>, decimal
  digits, each group of at most 4300 digits, the values \<open>n\<close> in 1..100 and \<open>m\<close> in
  2..1000) the form with \<open>D\<close> reaches the gate with the same dice count and the same
  number of sides. \<open>2D6\<close> is \<open>2d6\<close>.
\<close>

theorem diceroll_separator_case:
  "diceroll (g1 @ [68] @ g2) t1 t2 l = diceroll (g1 @ [100] @ g2) t1 t2 l \<and>
   (g1 \<noteq> [] \<and> list_all is_digit g1 \<and> length g1 \<le> 4300 \<and> int_digits 0 g1 = Inr n \<and>
    g2 \<noteq> [] \<and> list_all is_digit g2 \<and> length g2 \<le> 4300 \<and> int_digits 0 g2 = Inr m \<and>
    1 \<le> n \<and> n \<le> 100 \<and> 2 \<le> m \<and> m \<le> 1000 \<longrightarrow>
    diceroll (g1 @ [100] @ g2) t1 t2 l = gated_roll n m t1 t2 l \<and>
    diceroll (g1 @ [68] @ g2) t1 t2 l = gated_roll n m t1 t2 l) \<and>
   diceroll (map of_char ''2D6'') t1 t2 l = gated_roll 2 6 t1 t2 l \<and>
   diceroll (map of_char ''2d6'') t1 t2 l = gated_roll 2 6 t1 t2 l"
proof (intro conjI impI)
  show same: "diceroll (g1 @ [68] @ g2) t1 t2 l = diceroll (g1 @ [100] @ g2) t1 t2 l"
    by (simp only: diceroll_def lower_separator)
  have d: "list_all is_digit [50]" "list_all is_digit [54]"
    by (simp_all add: is_digit_ascii)
  show "diceroll (map of_char ''2D6'') t1 t2 l = gated_roll 2 6 t1 t2 l"
    unfolding ascii_examples
    by (rule diceroll_accepts [OF lower_notation(2)]) (simp_all add: is_digit_ascii decimal_ascii)
  show "diceroll (map of_char ''2d6'') t1 t2 l = gated_roll 2 6 t1 t2 l"
    unfolding ascii_examples
    by (rule diceroll_accepts [OF lower_notation(1)]) (simp_all add: is_digit_ascii decimal_ascii)
  assume v: "g1 \<noteq> [] \<and> list_all is_digit g1 \<and> length g1 \<le> 4300 \<and> int_digits 0 g1 = Inr n \<and>
    g2 \<noteq> [] \<and> list_all is_digit g2 \<and> length g2 \<le> 4300 \<and> int_digits 0 g2 = Inr m \<and>
    1 \<le> n \<and> n \<le> 100 \<and> 2 \<le> m \<and> m \<le> 1000"
  then have "lower (g1 @ [100] @ g2) = g1 @ [100] @ g2"
    by (intro lower_notation(1)) simp_all
  with v show lo: "diceroll (g1 @ [100] @ g2) t1 t2 l = gated_roll n m t1 t2 l"
    by (intro diceroll_accepts [where ?g1.0 = g1 and ?g2.0 = g2]) simp_all
  with same show "diceroll (g1 @ [68] @ g2) t1 t2 l = gated_roll n m t1 t2 l"
    by simp
qed

theorem diceroll_separator_case_witness:
  "diceroll (map of_char ''10D100'') 5 6 (init 2 10) = gated_roll 10 100 5 6 (init 2 10) \<and>
   diceroll (map of_char ''10d100'') 5 6 (init 2 10) = gated_roll 10 100 5 6 (init 2 10)"
  unfolding ascii_examples
  using diceroll_separator_case [of "[49, 48]" "[49, 48, 48]" 5 6 "init 2 10" 10 100]
  by (simp add: is_digit_ascii decimal_ascii)

section \<open>The replies of \<open>ask_gemini\<close>\<close>

text \<open>
  C4, as stated: every failure of the generation call gives a fixed apology string. Two
  calls that raise exceptions with different texts give two different replies, since the
  reply of the \<open>except\<close> branch ends with the text of the exception.
\<close>

theorem ask_gemini_reply_not_fixed:
  "ask_gemini (Inl (Exception ''timeout'') :: exn + unit response)
     = Inr (error_apology @ ''timeout'') \<and>
   ask_gemini (Inl (Exception ''refused'') :: exn + unit response)
     = Inr (error_apology @ ''refused'') \<and>
   error_apology @ ''timeout'' \<noteq> error_apology @ ''refused''"
  by (simp add: ask_gemini_def)

text \<open>
  C4, amended: \<open>ask_gemini\<close> propagates neither failure. A response without candidates
  gives the fixed message that the content may have been blocked. A raised
  \<open>Exception\<close> gives the fixed apology followed by the text of the exception. Neither
  reply is empty.
\<close>

theorem ask_gemini_failures:
  "(candidates response = [] \<longrightarrow>
      ask_gemini (Inr response :: exn + 'c response) = Inr blocked_message) \<and>
   ask_gemini (Inl (Exception e) :: exn + 'c response) = Inr (error_apology @ e) \<and>
   blocked_message \<noteq> '''' \<and> error_apology @ e \<noteq> ''''"
  by (simp add: ask_gemini_def blocked_message_def error_apology_def)

theorem ask_gemini_failures_witness:
  "candidates \<lparr>candidates = ([] :: unit list), response_text = Inr ''''\<rparr> = [] \<and>
   ask_gemini (Inr \<lparr>candidates = ([] :: unit list), response_text = Inr ''''\<rparr>)
     = Inr blocked_message \<and>
   ask_gemini (Inl (Exception ''timeout'') :: exn + unit response)
     = Inr (error_apology @ ''timeout'')"
  using ask_gemini_failures
    [of "\<lparr>candidates = ([] :: unit list), response_text = Inr ''''\<rparr>" "''timeout''"]
  by simp

end
